theory Spec2Isabelle
  imports Main "HOL-Library.Sublist" "HOL-Library.Multiset" "HOL-Library.Char_ord"
    "HOL-Library.List_Lexorder" "HOL-Library.Option_ord"
begin

section \<open>The todo service: data model\<close>

text \<open>
  The service is a FastAPI application over one SQLAlchemy table. The model below keeps
  the three source files apart: \<^verbatim>\<open>models.py\<close> (the row type), \<^verbatim>\<open>schemas.py\<close> (the
  validated payloads) and \<^verbatim>\<open>main.py\<close> (the handlers and their routes).

  Conventions of the embedding:
  \<^item> a \<^verbatim>\<open>datetime\<close> is an \<open>int\<close> (an instant on the server's time line); the two
    clocks the code reads, \<^verbatim>\<open>datetime.now\<close> in Python and \<^verbatim>\<open>func.now()\<close> in the
    database, are arguments of the operations that read them;
  \<^item> a string is a \<open>string\<close>, one \<open>char\<close> per character;
  \<^item> the table is the list of its rows; \<^verbatim>\<open>todo_id\<close> is the primary key, so no two rows
    of a table share it (\<open>pk_unique\<close> below);
  \<^item> a request is modelled after transport decoding: a body is the JSON object already
    parsed, a query or path parameter is already of its declared base type;
  \<^item> an exception is a value of type \<open>error\<close>; every operation returns its result
    together with the table after it.
\<close>

subsection \<open>models.py\<close>

record TodoModel =
  todo_id :: int
  todo_name :: string
  todo_description :: string
  priority :: int
  status :: string
  due_date :: "int option"
  is_deleted :: bool
  created_at :: int
  updated_at :: int

type_synonym db = "TodoModel list"

definition pk_unique :: "db \<Rightarrow> bool" where
  "pk_unique rows = distinct (map todo_id rows)"

subsection \<open>schemas.py\<close>

datatype Priority = HIGH | MEDIUM | LOW

fun int_of_Priority :: "Priority \<Rightarrow> int" where
  "int_of_Priority HIGH = 1"
| "int_of_Priority MEDIUM = 2"
| "int_of_Priority LOW = 3"

definition Priority_of_int :: "int \<Rightarrow> Priority option" where
  "Priority_of_int n =
     (if n = 1 then Some HIGH else if n = 2 then Some MEDIUM
      else if n = 3 then Some LOW else None)"

definition TodoStatus :: "string list" where
  "TodoStatus = [''NEW'', ''IN_PROGRESS'', ''DONE'']"

datatype SortBy =
  By_todo_id | By_todo_name | By_priority | By_status | By_due_date
| By_created_at | By_updated_at

datatype OrderBy = Asc | Desc

datatype ExportFormat = Json | Csv

definition SortBy_of_string :: "string \<Rightarrow> SortBy option" where
  "SortBy_of_string s =
     (if s = ''todo_id'' then Some By_todo_id
      else if s = ''todo_name'' then Some By_todo_name
      else if s = ''priority'' then Some By_priority
      else if s = ''status'' then Some By_status
      else if s = ''due_date'' then Some By_due_date
      else if s = ''created_at'' then Some By_created_at
      else if s = ''updated_at'' then Some By_updated_at
      else None)"

definition OrderBy_of_string :: "string \<Rightarrow> OrderBy option" where
  "OrderBy_of_string s =
     (if s = ''asc'' then Some Asc else if s = ''desc'' then Some Desc else None)"

definition ExportFormat_of_string :: "string \<Rightarrow> ExportFormat option" where
  "ExportFormat_of_string s =
     (if s = ''json'' then Some Json else if s = ''csv'' then Some Csv else None)"

text \<open>
  A key of a JSON body is absent, \<^verbatim>\<open>null\<close>, or carries a value. Pydantic keeps the
  difference between the first two (\<^verbatim>\<open>model_dump(exclude_unset=True)\<close> drops exactly the
  absent keys).
\<close>

datatype 'a field = Omitted | Null | Given 'a

record body =
  b_todo_name :: "string field"
  b_todo_description :: "string field"
  b_priority :: "int field"
  b_status :: "string field"
  b_due_date :: "int field"

datatype error =
  HTTPException nat string
| RequestValidationError
| TypeError
| IntegrityError


record TodoBase =
  tb_todo_name :: string
  tb_todo_description :: string
  tb_priority :: Priority
  tb_status :: string
  tb_due_date :: "int option"

record TodoUpdate =
  tu_todo_name :: "string field"
  tu_todo_description :: "string field"
  tu_priority :: "Priority field"
  tu_status :: "string field"
  tu_due_date :: "int field"

definition len_between :: "nat \<Rightarrow> nat \<Rightarrow> string \<Rightarrow> bool" where
  "len_between lo hi s = (lo \<le> length s \<and> length s \<le> hi)"

text \<open>
  \<^verbatim>\<open>TodoBase\<close> (and so \<^verbatim>\<open>TodoCreate\<close>, \<^verbatim>\<open>TodoReplace\<close>): the two strings are required,
  \<^verbatim>\<open>priority\<close> and \<^verbatim>\<open>status\<close> have defaults and do not admit \<^verbatim>\<open>null\<close>,
  \<^verbatim>\<open>due_date\<close> is optional.
\<close>

definition validate_TodoBase :: "body \<Rightarrow> error + TodoBase" where
  "validate_TodoBase b =
     (case (b_todo_name b, b_todo_description b) of
        (Given n, Given d) \<Rightarrow>
          (let p = (case b_priority b of Omitted \<Rightarrow> Some LOW | Null \<Rightarrow> None
                    | Given k \<Rightarrow> Priority_of_int k);
               s = (case b_status b of Omitted \<Rightarrow> Some ''NEW'' | Null \<Rightarrow> None
                    | Given v \<Rightarrow> (if v \<in> set TodoStatus then Some v else None));
               dd = (case b_due_date b of Given t \<Rightarrow> Some t | _ \<Rightarrow> None)
           in case (p, s) of
                (Some p', Some s') \<Rightarrow>
                  if len_between 3 512 n \<and> len_between 1 2000 d
                  then Inr \<lparr>tb_todo_name = n, tb_todo_description = d, tb_priority = p',
                            tb_status = s', tb_due_date = dd\<rparr>
                  else Inl RequestValidationError
              | _ \<Rightarrow> Inl RequestValidationError)
      | _ \<Rightarrow> Inl RequestValidationError)"

text \<open>
  \<^verbatim>\<open>TodoUpdate\<close>: every key is \<^verbatim>\<open>Optional\<close> with default \<^verbatim>\<open>None\<close>, so \<^verbatim>\<open>null\<close> passes
  validation for each of them; the constraints bind a value that is given.
\<close>

definition validate_TodoUpdate :: "body \<Rightarrow> error + TodoUpdate" where
  "validate_TodoUpdate b =
     (let name_ok = (case b_todo_name b of Given n \<Rightarrow> len_between 3 512 n | _ \<Rightarrow> True);
          desc_ok = (case b_todo_description b of Given d \<Rightarrow> len_between 1 2000 d | _ \<Rightarrow> True);
          status_ok = (case b_status b of Given v \<Rightarrow> v \<in> set TodoStatus | _ \<Rightarrow> True);
          p = (case b_priority b of Omitted \<Rightarrow> Some Omitted | Null \<Rightarrow> Some Null
               | Given k \<Rightarrow> map_option Given (Priority_of_int k))
      in case p of
           Some p' \<Rightarrow>
             if name_ok \<and> desc_ok \<and> status_ok
             then Inr \<lparr>tu_todo_name = b_todo_name b,
                       tu_todo_description = b_todo_description b,
                       tu_priority = p', tu_status = b_status b,
                       tu_due_date = b_due_date b\<rparr>
             else Inl RequestValidationError
         | None \<Rightarrow> Inl RequestValidationError)"

text \<open>\<^verbatim>\<open>TodoStatusUpdate\<close>: the one key \<^verbatim>\<open>status\<close>, required.\<close>

definition validate_TodoStatusUpdate :: "body \<Rightarrow> error + string" where
  "validate_TodoStatusUpdate b =
     (case b_status b of
        Given v \<Rightarrow> if v \<in> set TodoStatus then Inr v else Inl RequestValidationError
      | _ \<Rightarrow> Inl RequestValidationError)"

record TodoStats =
  total :: nat
  high :: nat
  medium :: nat
  low :: nat

section \<open>The query layer\<close>

text \<open>
  What the SQLAlchemy query object does on the table. The engine is chosen in
  \<^verbatim>\<open>db.py\<close>, which is not among the source files, and the engine itself is outside the
  repository; the model fixes the behaviour every SQL engine shares and, where engines
  differ, the one of SQLite (no escape character in \<^verbatim>\<open>LIKE\<close>, \<^verbatim>\<open>NULL\<close> below every
  value in \<^verbatim>\<open>ORDER BY\<close>, strings compared code by code, a new key one above the
  largest).
\<close>

subsection \<open>LIKE\<close>

definition lower_char :: "char \<Rightarrow> char" where
  "lower_char c =
     (let n = (of_char c :: nat) in if 65 \<le> n \<and> n \<le> 90 then char_of (n + 32) else c)"

definition lower :: "string \<Rightarrow> string" where
  "lower s = map lower_char s"

text \<open>
  \<open>like pattern subject\<close>: in the pattern \<^verbatim>\<open>%\<close> stands for any run of characters and
  \<^verbatim>\<open>_\<close> for any one character.
\<close>

fun like :: "string \<Rightarrow> string \<Rightarrow> bool" where
  "like [] [] = True"
| "like [] (c # s) = False"
| "like (p # ps) [] = (p = CHR ''%'' \<and> like ps [])"
| "like (p # ps) (c # s) =
     (if p = CHR ''%'' then like ps (c # s) \<or> like (p # ps) s
      else (p = CHR ''_'' \<or> p = c) \<and> like ps s)"

text \<open>\<^verbatim>\<open>column.ilike(pattern)\<close> is \<^verbatim>\<open>lower(column) LIKE lower(pattern)\<close>.\<close>

definition ilike :: "string \<Rightarrow> string \<Rightarrow> bool" where
  "ilike col pattern = like (lower pattern) (lower col)"

subsection \<open>ORDER BY\<close>

datatype colval = VNull | VInt int | VStr string

fun getattr :: "SortBy \<Rightarrow> TodoModel \<Rightarrow> colval" where
  "getattr By_todo_id t = VInt (todo_id t)"
| "getattr By_todo_name t = VStr (todo_name t)"
| "getattr By_priority t = VInt (priority t)"
| "getattr By_status t = VStr (status t)"
| "getattr By_due_date t = (case due_date t of None \<Rightarrow> VNull | Some d \<Rightarrow> VInt d)"
| "getattr By_created_at t = VInt (created_at t)"
| "getattr By_updated_at t = VInt (updated_at t)"

fun str_le :: "string \<Rightarrow> string \<Rightarrow> bool" where
  "str_le [] t = True"
| "str_le (a # s) [] = False"
| "str_le (a # s) (b # t) =
     ((of_char a :: nat) < of_char b \<or> (a = b \<and> str_le s t))"

fun colval_le :: "colval \<Rightarrow> colval \<Rightarrow> bool" where
  "colval_le VNull v = True"
| "colval_le (VInt a) VNull = False"
| "colval_le (VInt a) (VInt b) = (a \<le> b)"
| "colval_le (VInt a) (VStr t) = True"
| "colval_le (VStr s) VNull = False"
| "colval_le (VStr s) (VInt b) = False"
| "colval_le (VStr s) (VStr t) = str_le s t"

fun insort_by :: "('a \<Rightarrow> 'a \<Rightarrow> bool) \<Rightarrow> 'a \<Rightarrow> 'a list \<Rightarrow> 'a list" where
  "insort_by le x [] = [x]"
| "insort_by le x (y # ys) = (if le x y then x # y # ys else y # insort_by le x ys)"

definition sort_by_rel :: "('a \<Rightarrow> 'a \<Rightarrow> bool) \<Rightarrow> 'a list \<Rightarrow> 'a list" where
  "sort_by_rel le xs = foldr (insort_by le) xs []"

text \<open>
  \<^verbatim>\<open>query.order_by(sort_col.desc() if order == "desc" else sort_col.asc())\<close>; rows with
  equal keys keep their order in the table.
\<close>

definition row_le :: "SortBy \<Rightarrow> OrderBy \<Rightarrow> TodoModel \<Rightarrow> TodoModel \<Rightarrow> bool" where
  "row_le sort_by ord a b =
     (if ord = Desc then colval_le (getattr sort_by b) (getattr sort_by a)
      else colval_le (getattr sort_by a) (getattr sort_by b))"

definition order_by :: "SortBy \<Rightarrow> OrderBy \<Rightarrow> db \<Rightarrow> db" where
  "order_by sort_by ord query = sort_by_rel (row_le sort_by ord) query"

section \<open>main.py: the read operations\<close>

definition get_or_404 :: "db \<Rightarrow> int \<Rightarrow> bool \<Rightarrow> error + TodoModel" where
  "get_or_404 rows tid include_deleted =
     (let q = filter (\<lambda>t. todo_id t = tid) rows;
          q = (if \<not> include_deleted then filter (\<lambda>t. is_deleted t = False) q else q)
      in case q of
           [] \<Rightarrow> Inl (HTTPException 404 ''Todo not found'')
         | todo # rest \<Rightarrow> Inr todo)"

record ListParams =
  lp_limit :: int
  lp_offset :: int
  lp_priority :: "Priority option"
  lp_status_filter :: "string option"
  lp_q :: "string option"
  lp_overdue :: bool
  lp_sort_by :: SortBy
  lp_order :: OrderBy
  lp_include_deleted :: bool

definition q_matches :: "string \<Rightarrow> TodoModel \<Rightarrow> bool" where
  "q_matches q t =
     (ilike (todo_name t) (''%'' @ q @ ''%'') \<or> ilike (todo_description t) (''%'' @ q @ ''%''))"

text \<open>The filters of \<^verbatim>\<open>list_todos\<close>, in the order the source adds them.\<close>

definition list_filters :: "int \<Rightarrow> ListParams \<Rightarrow> db \<Rightarrow> db" where
  "list_filters now p rows =
     (let query = rows;
          query = (if \<not> lp_include_deleted p
                   then filter (\<lambda>t. is_deleted t = False) query else query);
          query = (case lp_priority p of
                     Some pr \<Rightarrow> filter (\<lambda>t. priority t = int_of_Priority pr) query
                   | None \<Rightarrow> query);
          query = (case lp_status_filter p of
                     Some s \<Rightarrow> filter (\<lambda>t. status t = s) query
                   | None \<Rightarrow> query);
          query = (case lp_q p of
                     Some q \<Rightarrow> if q \<noteq> [] then filter (q_matches q) query else query
                   | None \<Rightarrow> query);
          query = (if lp_overdue p
                   then filter (\<lambda>t. case due_date t of Some d \<Rightarrow> d < now | None \<Rightarrow> False)
                          (filter (\<lambda>t. due_date t \<noteq> None) query)
                   else query)
      in query)"

definition list_todos :: "db \<Rightarrow> int \<Rightarrow> ListParams \<Rightarrow> TodoModel list" where
  "list_todos rows now p =
     (let query = list_filters now p rows;
          query = order_by (lp_sort_by p) (lp_order p) query
      in take (nat (lp_limit p)) (drop (nat (lp_offset p)) query))"

subsection \<open>Export\<close>

datatype json = JNull | JInt int | JStr string | JBool bool | JDateTime int

datatype cell = CInt int | CStr string | CBool bool | CIso int

datatype export = JsonExport "(string \<times> json) list list" | CsvExport "cell list list"

definition export_query :: "db \<Rightarrow> bool \<Rightarrow> db" where
  "export_query rows include_deleted =
     (let query = rows;
          query = (if \<not> include_deleted
                   then filter (\<lambda>t. is_deleted t = False) query else query)
      in order_by By_todo_id Asc query)"

definition json_of_todo :: "TodoModel \<Rightarrow> (string \<times> json) list" where
  "json_of_todo t =
     [(''todo_id'', JInt (todo_id t)),
      (''todo_name'', JStr (todo_name t)),
      (''todo_description'', JStr (todo_description t)),
      (''priority'', JInt (priority t)),
      (''status'', JStr (status t)),
      (''due_date'', (case due_date t of None \<Rightarrow> JNull | Some d \<Rightarrow> JDateTime d)),
      (''is_deleted'', JBool (is_deleted t)),
      (''created_at'', JDateTime (created_at t)),
      (''updated_at'', JDateTime (updated_at t))]"

definition csv_header :: "cell list" where
  "csv_header = map CStr [''todo_id'', ''todo_name'', ''todo_description'', ''priority'',
     ''status'', ''due_date'', ''is_deleted'', ''created_at'', ''updated_at'']"

definition csv_of_todo :: "TodoModel \<Rightarrow> cell list" where
  "csv_of_todo t =
     [CInt (todo_id t), CStr (todo_name t), CStr (todo_description t), CInt (priority t),
      CStr (status t), (case due_date t of Some d \<Rightarrow> CIso d | None \<Rightarrow> CStr []),
      CBool (is_deleted t), CIso (created_at t), CIso (updated_at t)]"

definition export_todos :: "db \<Rightarrow> ExportFormat \<Rightarrow> bool \<Rightarrow> export" where
  "export_todos rows format include_deleted =
     (let todos = export_query rows include_deleted
      in if format = Json then JsonExport (map json_of_todo todos)
         else CsvExport (csv_header # map csv_of_todo todos))"

subsection \<open>Statistics\<close>

definition todos_stats :: "db \<Rightarrow> bool \<Rightarrow> TodoStats" where
  "todos_stats rows include_deleted =
     (let base = rows;
          base = (if \<not> include_deleted
                  then filter (\<lambda>t. is_deleted t = False) base else base)
      in \<lparr>total = length base,
          high = length (filter (\<lambda>t. priority t = int_of_Priority HIGH) base),
          medium = length (filter (\<lambda>t. priority t = int_of_Priority MEDIUM) base),
          low = length (filter (\<lambda>t. priority t = int_of_Priority LOW) base)\<rparr>)"

definition get_todo :: "db \<Rightarrow> int \<Rightarrow> error + TodoModel" where
  "get_todo rows tid = get_or_404 rows tid False"

section \<open>main.py: the write operations\<close>

text \<open>
  \<^verbatim>\<open>db.commit()\<close> on a loaded row. The unit of work compares the row with what it
  loaded: it writes nothing when no column differs, and otherwise one
  \<^verbatim>\<open>UPDATE ... WHERE todo_id = ?\<close> that also sets \<^verbatim>\<open>updated_at\<close> to the database's
  clock (\<^verbatim>\<open>onupdate=func.now()\<close>). \<^verbatim>\<open>db.refresh\<close> then reads the row back.
\<close>

definition commit :: "int \<Rightarrow> db \<Rightarrow> TodoModel \<Rightarrow> TodoModel \<Rightarrow> (error + TodoModel) \<times> db" where
  "commit db_now rows loaded todo =
     (if todo = loaded then (Inr loaded, rows)
      else (let row = todo\<lparr>updated_at := db_now\<rparr>
            in (Inr row, map (\<lambda>t. if todo_id t = todo_id loaded then row else t) rows)))"

text \<open>
  The primary key of an inserted row: one more than the largest key in the table, and
  1 in an empty table.
\<close>

definition next_id :: "db \<Rightarrow> int" where
  "next_id rows = foldr max (map todo_id rows) 0 + 1"

definition create_todo :: "int \<Rightarrow> TodoBase \<Rightarrow> db \<Rightarrow> (error + TodoModel) \<times> db" where
  "create_todo db_now todo rows =
     (let new_todo = \<lparr>todo_id = next_id rows,
                      todo_name = tb_todo_name todo,
                      todo_description = tb_todo_description todo,
                      priority = int_of_Priority (tb_priority todo),
                      status = tb_status todo,
                      due_date = tb_due_date todo,
                      is_deleted = False,
                      created_at = db_now,
                      updated_at = db_now\<rparr>
      in (Inr new_todo, rows @ [new_todo]))"

definition replace_todo :: "int \<Rightarrow> int \<Rightarrow> TodoBase \<Rightarrow> db \<Rightarrow> (error + TodoModel) \<times> db" where
  "replace_todo db_now tid payload rows =
     (case get_or_404 rows tid False of
        Inl e \<Rightarrow> (Inl e, rows)
      | Inr todo \<Rightarrow>
          commit db_now rows todo
            (todo\<lparr>todo_name := tb_todo_name payload,
                  todo_description := tb_todo_description payload,
                  priority := int_of_Priority (tb_priority payload),
                  status := tb_status payload,
                  due_date := tb_due_date payload\<rparr>))"

text \<open>
  \<^verbatim>\<open>if "k" in data: todo.k = data["k"]\<close>: the attribute after the statement, \<open>None\<close> for
  Python's \<^verbatim>\<open>None\<close>.
\<close>

fun assign :: "'a field \<Rightarrow> 'a option \<Rightarrow> 'a option" where
  "assign Omitted old = old"
| "assign Null old = None"
| "assign (Given v) old = Some v"

text \<open>
  \<^verbatim>\<open>update_todo\<close>. With \<^verbatim>\<open>priority\<close> given as \<^verbatim>\<open>null\<close>, \<^verbatim>\<open>int(data["priority"])\<close>
  raises \<^verbatim>\<open>TypeError\<close> before the commit. The columns \<^verbatim>\<open>todo_name\<close>,
  \<^verbatim>\<open>todo_description\<close> and \<^verbatim>\<open>status\<close> are \<^verbatim>\<open>nullable=False\<close>: with one of them set
  to \<^verbatim>\<open>None\<close> the \<^verbatim>\<open>UPDATE\<close> of the commit fails with \<^verbatim>\<open>IntegrityError\<close> and the
  transaction is rolled back when the session closes.
\<close>

definition update_todo :: "int \<Rightarrow> int \<Rightarrow> TodoUpdate \<Rightarrow> db \<Rightarrow> (error + TodoModel) \<times> db" where
  "update_todo db_now tid payload rows =
     (case get_or_404 rows tid False of
        Inl e \<Rightarrow> (Inl e, rows)
      | Inr todo \<Rightarrow>
          (let name = assign (tu_todo_name payload) (Some (todo_name todo));
               description = assign (tu_todo_description payload) (Some (todo_description todo))
           in case tu_priority payload of
                Null \<Rightarrow> (Inl TypeError, rows)
              | pf \<Rightarrow>
                  (let prio = (case pf of Given p \<Rightarrow> int_of_Priority p | _ \<Rightarrow> priority todo);
                       st = assign (tu_status payload) (Some (status todo));
                       dd = assign (tu_due_date payload) (due_date todo)
                   in case (name, description, st) of
                        (Some n, Some d, Some s) \<Rightarrow>
                          commit db_now rows todo
                            (todo\<lparr>todo_name := n, todo_description := d, priority := prio,
                                  status := s, due_date := dd\<rparr>)
                      | _ \<Rightarrow> (Inl IntegrityError, rows))))"

definition update_todo_status :: "int \<Rightarrow> int \<Rightarrow> string \<Rightarrow> db \<Rightarrow> (error + TodoModel) \<times> db" where
  "update_todo_status db_now tid payload_status rows =
     (case get_or_404 rows tid False of
        Inl e \<Rightarrow> (Inl e, rows)
      | Inr todo \<Rightarrow> commit db_now rows todo (todo\<lparr>status := payload_status\<rparr>))"

definition restore_todo :: "int \<Rightarrow> int \<Rightarrow> db \<Rightarrow> (error + TodoModel) \<times> db" where
  "restore_todo db_now tid rows =
     (case get_or_404 rows tid True of
        Inl e \<Rightarrow> (Inl e, rows)
      | Inr todo \<Rightarrow> commit db_now rows todo (todo\<lparr>is_deleted := False\<rparr>))"

definition delete_todo :: "int \<Rightarrow> int \<Rightarrow> db \<Rightarrow> (error + unit) \<times> db" where
  "delete_todo db_now tid rows =
     (case get_or_404 rows tid False of
        Inl e \<Rightarrow> (Inl e, rows)
      | Inr todo \<Rightarrow>
          (case commit db_now rows todo (todo\<lparr>is_deleted := True\<rparr>) of
             (r, rows') \<Rightarrow> (Inr (), rows')))"

subsection \<open>Startup\<close>

definition seed_rows :: "int \<Rightarrow> int \<Rightarrow> int \<Rightarrow> db" where
  "seed_rows now db_now k =
     [\<lparr>todo_id = k, todo_name = ''Sports'', todo_description = ''Go to the Gym'',
        priority = int_of_Priority MEDIUM, status = ''IN_PROGRESS'', due_date = None,
        is_deleted = False, created_at = db_now, updated_at = db_now\<rparr>,
      \<lparr>todo_id = k + 1, todo_name = ''Clean house'',
        todo_description = ''Cleaning the house thoroughly'',
        priority = int_of_Priority HIGH, status = ''NEW'', due_date = None,
        is_deleted = False, created_at = db_now, updated_at = db_now\<rparr>,
      \<lparr>todo_id = k + 2, todo_name = ''Read'',
        todo_description = ''Read chapter 5 of the book'',
        priority = int_of_Priority LOW, status = ''DONE'', due_date = None,
        is_deleted = False, created_at = db_now, updated_at = db_now\<rparr>,
      \<lparr>todo_id = k + 3, todo_name = ''Work'',
        todo_description = ''Complete project documentation'',
        priority = int_of_Priority MEDIUM, status = ''NEW'', due_date = Some now,
        is_deleted = False, created_at = db_now, updated_at = db_now\<rparr>,
      \<lparr>todo_id = k + 4, todo_name = ''Study'',
        todo_description = ''Prepare for upcoming exam'',
        priority = int_of_Priority LOW, status = ''NEW'', due_date = None,
        is_deleted = False, created_at = db_now, updated_at = db_now\<rparr>]"

definition seed_data :: "int \<Rightarrow> int \<Rightarrow> db \<Rightarrow> db" where
  "seed_data now db_now rows =
     (case filter (\<lambda>t. is_deleted t = False) rows of
        [] \<Rightarrow> rows @ seed_rows now db_now (next_id rows)
      | e # rest \<Rightarrow> rows)"

section \<open>main.py: the routes\<close>

text \<open>
  \<^verbatim>\<open>require_api_key\<close>: the header \<^verbatim>\<open>X-API-Key\<close> of the request, \<open>None\<close> when the
  request has none; \<^verbatim>\<open>Header(default="")\<close> reads an absent header as the empty string.
  \<open>API_KEY\<close> is the value read from the environment at start.
\<close>

definition require_api_key :: "string \<Rightarrow> string option \<Rightarrow> error + unit" where
  "require_api_key API_KEY header =
     (let x_api_key = (case header of None \<Rightarrow> [] | Some v \<Rightarrow> v)
      in if x_api_key \<noteq> API_KEY
         then Inl (HTTPException 401 ''Invalid or missing API key'')
         else Inr ())"

text \<open>\<^verbatim>\<open>Path(..., ge=1)\<close>.\<close>

definition path_todo_id :: "int \<Rightarrow> error + int" where
  "path_todo_id i = (if 1 \<le> i then Inr i else Inl RequestValidationError)"

record list_query =
  lq_limit :: "int option"
  lq_offset :: "int option"
  lq_priority :: "int option"
  lq_status :: "string option"
  lq_q :: "string option"
  lq_overdue :: "bool option"
  lq_sort_by :: "string option"
  lq_order :: "string option"
  lq_include_deleted :: "bool option"

text \<open>The \<^verbatim>\<open>Query(...)\<close> declarations of \<^verbatim>\<open>list_todos\<close>: defaults and constraints.\<close>

definition validate_list_query :: "list_query \<Rightarrow> error + ListParams" where
  "validate_list_query lq =
     (let limit = (case lq_limit lq of None \<Rightarrow> 10 | Some n \<Rightarrow> n);
          offset = (case lq_offset lq of None \<Rightarrow> 0 | Some n \<Rightarrow> n);
          prio = (case lq_priority lq of None \<Rightarrow> Some None
                  | Some k \<Rightarrow> map_option Some (Priority_of_int k));
          q_ok = (case lq_q lq of None \<Rightarrow> True | Some q \<Rightarrow> len_between 1 100 q);
          sort_by = (case lq_sort_by lq of None \<Rightarrow> SortBy_of_string ''todo_id''
                     | Some s \<Rightarrow> SortBy_of_string s);
          ord = (case lq_order lq of None \<Rightarrow> OrderBy_of_string ''asc''
                 | Some s \<Rightarrow> OrderBy_of_string s)
      in case (prio, sort_by, ord) of
           (Some pr, Some sb, Some ob) \<Rightarrow>
             if 1 \<le> limit \<and> limit \<le> 100 \<and> 0 \<le> offset \<and> q_ok
             then Inr \<lparr>lp_limit = limit, lp_offset = offset, lp_priority = pr,
                       lp_status_filter = lq_status lq, lp_q = lq_q lq,
                       lp_overdue = (case lq_overdue lq of None \<Rightarrow> False | Some b \<Rightarrow> b),
                       lp_sort_by = sb, lp_order = ob,
                       lp_include_deleted =
                         (case lq_include_deleted lq of None \<Rightarrow> False | Some b \<Rightarrow> b)\<rparr>
             else Inl RequestValidationError
         | _ \<Rightarrow> Inl RequestValidationError)"

datatype request =
  Health
| ListTodos list_query
| ExportTodos "string option" "bool option"
| TodosStats "bool option"
| GetTodo int
| CreateTodo body
| ReplaceTodo int body
| UpdateTodo int body
| UpdateTodoStatus int body
| RestoreTodo int
| DeleteTodo int

datatype response =
  HealthOut string
| TodoList "TodoModel list"
| Exported export
| Stats TodoStats
| TodoOut TodoModel
| Created TodoModel
| NoContent

text \<open>The routes declared with \<^verbatim>\<open>dependencies=[Depends(require_api_key)]\<close>.\<close>

fun requires_key :: "request \<Rightarrow> bool" where
  "requires_key (CreateTodo b) = True"
| "requires_key (ReplaceTodo i b) = True"
| "requires_key (UpdateTodo i b) = True"
| "requires_key (UpdateTodoStatus i b) = True"
| "requires_key (RestoreTodo i) = True"
| "requires_key (DeleteTodo i) = True"
| "requires_key r = False"

definition answer :: "('a \<Rightarrow> response) \<Rightarrow> (error + 'a) \<times> db \<Rightarrow> (error + response) \<times> db" where
  "answer f r = (case r of (Inl e, rows) \<Rightarrow> (Inl e, rows) | (Inr x, rows) \<Rightarrow> (Inr (f x), rows))"

text \<open>
  The parameters of a route, validated together: an invalid path parameter or an invalid
  body gives the one \<^verbatim>\<open>RequestValidationError\<close>, and the function of the route is not
  called.
\<close>

definition route :: "request \<Rightarrow> int \<Rightarrow> int \<Rightarrow> db \<Rightarrow> (error + response) \<times> db" where
  "route req now db_now rows =
     (case req of
        Health \<Rightarrow> (Inr (HealthOut ''ok''), rows)
      | ListTodos lq \<Rightarrow>
          (case validate_list_query lq of
             Inl e \<Rightarrow> (Inl e, rows)
           | Inr p \<Rightarrow> (Inr (TodoList (list_todos rows now p)), rows))
      | ExportTodos fmt incl \<Rightarrow>
          (case (case fmt of None \<Rightarrow> ExportFormat_of_string ''json''
                 | Some s \<Rightarrow> ExportFormat_of_string s) of
             None \<Rightarrow> (Inl RequestValidationError, rows)
           | Some format \<Rightarrow>
               (Inr (Exported (export_todos rows format
                                 (case incl of None \<Rightarrow> False | Some b \<Rightarrow> b))), rows))
      | TodosStats incl \<Rightarrow>
          (Inr (Stats (todos_stats rows (case incl of None \<Rightarrow> False | Some b \<Rightarrow> b))), rows)
      | GetTodo i \<Rightarrow>
          (case path_todo_id i of
             Inl e \<Rightarrow> (Inl e, rows)
           | Inr tid \<Rightarrow> answer TodoOut (get_todo rows tid, rows))
      | CreateTodo b \<Rightarrow>
          (case validate_TodoBase b of
             Inl e \<Rightarrow> (Inl e, rows)
           | Inr todo \<Rightarrow> answer Created (create_todo db_now todo rows))
      | ReplaceTodo i b \<Rightarrow>
          (case (path_todo_id i, validate_TodoBase b) of
             (Inr tid, Inr payload) \<Rightarrow> answer TodoOut (replace_todo db_now tid payload rows)
           | _ \<Rightarrow> (Inl RequestValidationError, rows))
      | UpdateTodo i b \<Rightarrow>
          (case (path_todo_id i, validate_TodoUpdate b) of
             (Inr tid, Inr payload) \<Rightarrow> answer TodoOut (update_todo db_now tid payload rows)
           | _ \<Rightarrow> (Inl RequestValidationError, rows))
      | UpdateTodoStatus i b \<Rightarrow>
          (case (path_todo_id i, validate_TodoStatusUpdate b) of
             (Inr tid, Inr st) \<Rightarrow> answer TodoOut (update_todo_status db_now tid st rows)
           | _ \<Rightarrow> (Inl RequestValidationError, rows))
      | RestoreTodo i \<Rightarrow>
          (case path_todo_id i of
             Inl e \<Rightarrow> (Inl e, rows)
           | Inr tid \<Rightarrow> answer TodoOut (restore_todo db_now tid rows))
      | DeleteTodo i \<Rightarrow>
          (case path_todo_id i of
             Inl e \<Rightarrow> (Inl e, rows)
           | Inr tid \<Rightarrow> answer (\<lambda>u. NoContent) (delete_todo db_now tid rows)))"

text \<open>
  One request: the dependencies of a route are solved before its own parameters, so on a
  route that requires the key \<^verbatim>\<open>require_api_key\<close> runs first, and its exception ends the
  request.
\<close>

definition handle ::
  "string \<Rightarrow> string option \<Rightarrow> request \<Rightarrow> int \<Rightarrow> int \<Rightarrow> db \<Rightarrow> (error + response) \<times> db" where
  "handle API_KEY header req now db_now rows =
     (if requires_key req
      then (case require_api_key API_KEY header of
              Inl e \<Rightarrow> (Inl e, rows)
            | Inr u \<Rightarrow> route req now db_now rows)
      else route req now db_now rows)"

text \<open>
  The tables the service can hold: \<^verbatim>\<open>create_all\<close> makes the empty table, the startup
  hook seeds it, and every request is a step.
\<close>

inductive reachable :: "db \<Rightarrow> bool" where
  reachable_empty: "reachable []"
| reachable_seed: "reachable rows \<Longrightarrow> reachable (seed_data now db_now rows)"
| reachable_step:
    "reachable rows \<Longrightarrow> reachable (snd (handle API_KEY header req now db_now rows))"

section \<open>Predicates used in the statements\<close>

text \<open>
  The conjunction of the filters that \<^verbatim>\<open>list_todos\<close> adds to its query, read off the
  source one filter at a time.
\<close>

definition passes :: "int \<Rightarrow> ListParams \<Rightarrow> TodoModel \<Rightarrow> bool" where
  "passes now p t =
     ((lp_include_deleted p \<or> \<not> is_deleted t)
      \<and> (case lp_priority p of None \<Rightarrow> True | Some pr \<Rightarrow> priority t = int_of_Priority pr)
      \<and> (case lp_status_filter p of None \<Rightarrow> True | Some s \<Rightarrow> status t = s)
      \<and> (case lp_q p of None \<Rightarrow> True | Some q \<Rightarrow> q = [] \<or> q_matches q t)
      \<and> (lp_overdue p \<longrightarrow> (case due_date t of None \<Rightarrow> False | Some d \<Rightarrow> d < now)))"

text \<open>
  The filters as the specification words them: the text filter holds when \<open>q\<close> is a
  substring, letter case apart, of the name or of the description.
\<close>

definition spec_q_filter :: "string \<Rightarrow> TodoModel \<Rightarrow> bool" where
  "spec_q_filter q t =
     (sublist (lower q) (lower (todo_name t)) \<or> sublist (lower q) (lower (todo_description t)))"

definition spec_passes :: "int \<Rightarrow> ListParams \<Rightarrow> TodoModel \<Rightarrow> bool" where
  "spec_passes now p t =
     ((lp_include_deleted p \<or> \<not> is_deleted t)
      \<and> (case lp_priority p of None \<Rightarrow> True | Some pr \<Rightarrow> priority t = int_of_Priority pr)
      \<and> (case lp_status_filter p of None \<Rightarrow> True | Some s \<Rightarrow> status t = s)
      \<and> (case lp_q p of None \<Rightarrow> True | Some q \<Rightarrow> spec_q_filter q t)
      \<and> (lp_overdue p \<longrightarrow> (case due_date t of None \<Rightarrow> False | Some d \<Rightarrow> d < now)))"

text \<open>A pattern without the two wildcards of \<^verbatim>\<open>LIKE\<close>.\<close>

definition wildcard_free :: "string \<Rightarrow> bool" where
  "wildcard_free q = (CHR ''%'' \<notin> set q \<and> CHR ''_'' \<notin> set q)"

text \<open>Every row carries one of the three priority levels.\<close>

definition priority_valid :: "db \<Rightarrow> bool" where
  "priority_valid rows = (\<forall>t \<in> set rows. priority t = 1 \<or> priority t = 2 \<or> priority t = 3)"

text \<open>The request \<^verbatim>\<open>GET /todos\<close> without parameters, and a body without keys.\<close>

definition default_list_query :: list_query where
  "default_list_query =
     \<lparr>lq_limit = None, lq_offset = None, lq_priority = None, lq_status = None,
      lq_q = None, lq_overdue = None, lq_sort_by = None, lq_order = None,
      lq_include_deleted = None\<rparr>"

definition empty_body :: body where
  "empty_body =
     \<lparr>b_todo_name = Omitted, b_todo_description = Omitted, b_priority = Omitted,
      b_status = Omitted, b_due_date = Omitted\<rparr>"

text \<open>
  A sequence of rows is monotonic on the column named by a \<^verbatim>\<open>sort_by\<close> value:
  non-decreasing for \<^verbatim>\<open>asc\<close>, non-increasing for \<^verbatim>\<open>desc\<close>. The columns are read from
  the rows one by one, and their values are compared in the orders of the library:
  integers and instants by size, strings character by character on the character codes,
  and a null \<^verbatim>\<open>due_date\<close> below every instant.
\<close>

definition ordered :: "string \<Rightarrow> ('k :: linorder) list \<Rightarrow> bool" where
  "ordered ord ks =
     (if ord = ''asc'' then sorted_wrt (\<lambda>x y. x \<le> y) ks
      else if ord = ''desc'' then sorted_wrt (\<lambda>x y. y \<le> x) ks
      else False)"

definition monotonic_on :: "string \<Rightarrow> string \<Rightarrow> TodoModel list \<Rightarrow> bool" where
  "monotonic_on sort_by ord ts =
     (if sort_by = ''todo_id'' then ordered ord (map todo_id ts)
      else if sort_by = ''todo_name'' then ordered ord (map todo_name ts)
      else if sort_by = ''priority'' then ordered ord (map priority ts)
      else if sort_by = ''status'' then ordered ord (map status ts)
      else if sort_by = ''due_date'' then ordered ord (map due_date ts)
      else if sort_by = ''created_at'' then ordered ord (map created_at ts)
      else if sort_by = ''updated_at'' then ordered ord (map updated_at ts)
      else False)"

text \<open>
  A table to run the operations on: the five rows of the startup hook, the second of
  them soft-deleted by a \<^verbatim>\<open>DELETE /todos/2\<close> that carries the key.
\<close>

definition seeded_table :: db where
  "seeded_table = seed_data 5 7 []"

definition sample_table :: db where
  "sample_table =
     snd (handle ''name_here'' (Some ''name_here'') (DeleteTodo 2) 8 8 seeded_table)"

definition default_params :: ListParams where
  "default_params =
     \<lparr>lp_limit = 10, lp_offset = 0, lp_priority = None, lp_status_filter = None,
      lp_q = None, lp_overdue = False, lp_sort_by = By_todo_id, lp_order = Asc,
      lp_include_deleted = False\<rparr>"

text \<open>
  A table of eleven rows, none soft-deleted, with the ids 1 to 11: what eleven
  \<^verbatim>\<open>POST /todos\<close> of the same body, answered at the same instant, leave in an empty
  table.
\<close>

definition eleven_rows :: db where
  "eleven_rows =
     map (\<lambda>k. \<lparr>todo_id = k, todo_name = ''Task'', todo_description = ''To do'',
                priority = 3, status = ''NEW'', due_date = None, is_deleted = False,
                created_at = 7, updated_at = 7\<rparr>)
       [1, 2, 3, 4, 5, 6, 7, 8, 9, 10, 11]"

section \<open>Sorting and filtering\<close>

lemma set_insort_by: "set (insort_by le x xs) = insert x (set xs)"
  by (induction xs) auto

lemma set_sort_by_rel: "set (sort_by_rel le xs) = set xs"
  by (induction xs) (simp_all add: sort_by_rel_def set_insort_by)

lemma mset_insort_by: "mset (insort_by le x xs) = add_mset x (mset xs)"
  by (induction xs) auto

lemma mset_sort_by_rel: "mset (sort_by_rel le xs) = mset xs"
  by (induction xs) (simp_all add: sort_by_rel_def mset_insort_by)

lemma length_sort_by_rel: "length (sort_by_rel le xs) = length xs"
proof -
  have "size (mset (sort_by_rel le xs)) = size (mset xs)"
    by (simp add: mset_sort_by_rel)
  then show ?thesis by simp
qed

lemma sorted_wrt_insort_by:
  assumes total: "\<And>a b. le a b \<or> le b a"
    and trans: "\<And>a b c. le a b \<Longrightarrow> le b c \<Longrightarrow> le a c"
    and "sorted_wrt le xs"
  shows "sorted_wrt le (insort_by le x xs)"
  using assms(3)
proof (induction xs)
  case Nil
  then show ?case by simp
next
  case (Cons y ys)
  show ?case
  proof (cases "le x y")
    case True
    with Cons.prems trans show ?thesis by auto
  next
    case False
    with total have "le y x" by blast
    with Cons False show ?thesis by (auto simp: set_insort_by)
  qed
qed

lemma sorted_wrt_sort_by_rel:
  assumes "\<And>a b. le a b \<or> le b a"
    and "\<And>a b c. le a b \<Longrightarrow> le b c \<Longrightarrow> le a c"
  shows "sorted_wrt le (sort_by_rel le xs)"
proof (induction xs)
  case Nil
  show ?case by (simp add: sort_by_rel_def)
next
  case (Cons x xs)
  have "sort_by_rel le (x # xs) = insort_by le x (sort_by_rel le xs)"
    by (simp add: sort_by_rel_def)
  with Cons assms show ?case by (simp add: sorted_wrt_insort_by)
qed

lemma str_le_total: "str_le s t \<or> str_le t s"
  by (induction s t rule: str_le.induct) auto

lemma str_le_trans: "str_le s t \<Longrightarrow> str_le t u \<Longrightarrow> str_le s u"
proof (induction s t arbitrary: u rule: str_le.induct)
  case (1 t)
  show ?case by simp
next
  case (2 a s)
  then show ?case by simp
next
  case (3 a s b t)
  then show ?case by (cases u) auto
qed

lemma colval_le_total: "colval_le u v \<or> colval_le v u"
  by (cases u; cases v) (simp_all add: str_le_total linear)

lemma colval_le_trans: "colval_le u v \<Longrightarrow> colval_le v w \<Longrightarrow> colval_le u w"
  by (cases u; cases v; cases w) (auto intro: str_le_trans)

lemma row_le_total: "row_le sb ob a b \<or> row_le sb ob b a"
  by (simp add: row_le_def colval_le_total)

lemma row_le_trans: "row_le sb ob a b \<Longrightarrow> row_le sb ob b c \<Longrightarrow> row_le sb ob a c"
  by (cases "ob = Desc") (auto simp: row_le_def intro: colval_le_trans)

lemma sorted_wrt_order_by: "sorted_wrt (row_le sb ob) (order_by sb ob rows)"
  unfolding order_by_def
proof (rule sorted_wrt_sort_by_rel)
  show "row_le sb ob a b \<or> row_le sb ob b a" for a b
    by (rule row_le_total)
  show "row_le sb ob a b \<Longrightarrow> row_le sb ob b c \<Longrightarrow> row_le sb ob a c" for a b c
    by (rule row_le_trans)
qed

lemma set_order_by: "set (order_by sb ob rows) = set rows"
  by (simp add: order_by_def set_sort_by_rel)

lemma mset_order_by: "mset (order_by sb ob rows) = mset rows"
  by (simp add: order_by_def mset_sort_by_rel)

lemma if_filter: "(if c then filter P xs else xs) = filter (\<lambda>t. c \<longrightarrow> P t) xs"
  by simp

lemma case_filter:
  "(case v of None \<Rightarrow> xs | Some a \<Rightarrow> filter (P a) xs)
     = filter (\<lambda>t. case v of None \<Rightarrow> True | Some a \<Rightarrow> P a t) xs"
  by (cases v) simp_all

lemma list_filters_eq: "list_filters now p rows = filter (passes now p) rows"
proof -
  have q: "(case lp_q p of None \<Rightarrow> xs
            | Some q \<Rightarrow> if q \<noteq> [] then filter (q_matches q) xs else xs)
      = filter (\<lambda>t. case lp_q p of None \<Rightarrow> True | Some q \<Rightarrow> q = [] \<or> q_matches q t) xs"
    for xs
    by (cases "lp_q p") auto
  have od: "(if lp_overdue p
             then filter (\<lambda>t. case due_date t of Some d \<Rightarrow> d < now | None \<Rightarrow> False)
                    (filter (\<lambda>t. due_date t \<noteq> None) xs)
             else xs)
      = filter (\<lambda>t. lp_overdue p \<longrightarrow> (case due_date t of None \<Rightarrow> False | Some d \<Rightarrow> d < now)) xs"
    for xs
    by (cases "lp_overdue p") (auto intro: filter_cong split: option.splits)
  have del: "(if \<not> lp_include_deleted p then filter (\<lambda>t. is_deleted t = False) xs else xs)
      = filter (\<lambda>t. lp_include_deleted p \<or> \<not> is_deleted t) xs" for xs
    by simp
  show ?thesis
    unfolding list_filters_def Let_def del q od case_filter passes_def
    by (simp add: conj_commute conj_left_commute cong: filter_cong)
qed

lemma set_list_todos: "set (list_todos rows now p) \<subseteq> set (list_filters now p rows)"
proof -
  have "set (list_todos rows now p)
          \<subseteq> set (order_by (lp_sort_by p) (lp_order p) (list_filters now p rows))"
    unfolding list_todos_def Let_def
    by (meson set_take_subset set_drop_subset subset_trans)
  then show ?thesis by (simp add: set_order_by)
qed

lemma list_todos_passes: "t \<in> set (list_todos rows now p) \<Longrightarrow> t \<in> set rows \<and> passes now p t"
  using set_list_todos [of rows now p] by (auto simp: list_filters_eq)

lemma validate_list_query_Inr:
  assumes "validate_list_query lq = Inr p"
  shows "lp_limit p = (case lq_limit lq of None \<Rightarrow> 10 | Some n \<Rightarrow> n)
       \<and> lp_offset p = (case lq_offset lq of None \<Rightarrow> 0 | Some n \<Rightarrow> n)
       \<and> 1 \<le> lp_limit p \<and> lp_limit p \<le> 100 \<and> 0 \<le> lp_offset p
       \<and> lp_status_filter p = lq_status lq \<and> lp_q p = lq_q lq
       \<and> lp_overdue p = (lq_overdue lq = Some True)
       \<and> lp_include_deleted p = (lq_include_deleted lq = Some True)
       \<and> SortBy_of_string (case lq_sort_by lq of None \<Rightarrow> ''todo_id'' | Some s \<Rightarrow> s)
           = Some (lp_sort_by p)
       \<and> OrderBy_of_string (case lq_order lq of None \<Rightarrow> ''asc'' | Some s \<Rightarrow> s)
           = Some (lp_order p)"
proof -
  let ?prio = "case lq_priority lq of None \<Rightarrow> Some None
               | Some k \<Rightarrow> map_option Some (Priority_of_int k)"
  let ?sb = "case lq_sort_by lq of None \<Rightarrow> SortBy_of_string ''todo_id''
             | Some s \<Rightarrow> SortBy_of_string s"
  let ?ob = "case lq_order lq of None \<Rightarrow> OrderBy_of_string ''asc''
             | Some s \<Rightarrow> OrderBy_of_string s"
  from assms obtain pr sb ob where v: "?prio = Some pr" "?sb = Some sb" "?ob = Some ob"
    unfolding validate_list_query_def Let_def
    by (cases ?prio; cases ?sb; cases ?ob) simp_all
  from assms have p: "p = \<lparr>lp_limit = (case lq_limit lq of None \<Rightarrow> 10 | Some n \<Rightarrow> n),
        lp_offset = (case lq_offset lq of None \<Rightarrow> 0 | Some n \<Rightarrow> n), lp_priority = pr,
        lp_status_filter = lq_status lq, lp_q = lq_q lq,
        lp_overdue = (case lq_overdue lq of None \<Rightarrow> False | Some b \<Rightarrow> b),
        lp_sort_by = sb, lp_order = ob,
        lp_include_deleted = (case lq_include_deleted lq of None \<Rightarrow> False | Some b \<Rightarrow> b)\<rparr>"
    and r: "1 \<le> (case lq_limit lq of None \<Rightarrow> 10 | Some n \<Rightarrow> n)"
           "(case lq_limit lq of None \<Rightarrow> 10 | Some n \<Rightarrow> n) \<le> 100"
           "0 \<le> (case lq_offset lq of None \<Rightarrow> 0 | Some n \<Rightarrow> n)"
    unfolding validate_list_query_def Let_def v by (simp_all split: if_splits)
  have sb: "SortBy_of_string (case lq_sort_by lq of None \<Rightarrow> ''todo_id'' | Some s \<Rightarrow> s) = Some sb"
    using v(2) by (cases "lq_sort_by lq") simp_all
  have ob: "OrderBy_of_string (case lq_order lq of None \<Rightarrow> ''asc'' | Some s \<Rightarrow> s) = Some ob"
    using v(3) by (cases "lq_order lq") simp_all
  have od: "(case lq_overdue lq of None \<Rightarrow> False | Some b \<Rightarrow> b) = (lq_overdue lq = Some True)"
    by (cases "lq_overdue lq") simp_all
  have incl: "(case lq_include_deleted lq of None \<Rightarrow> False | Some b \<Rightarrow> b)
               = (lq_include_deleted lq = Some True)"
    by (cases "lq_include_deleted lq") simp_all
  show ?thesis
    unfolding p using r sb ob od incl by simp
qed


section \<open>Routes and their functions\<close>

lemma route_ListTodos:
  "fst (route (ListTodos lq) now db_now rows) = Inr (TodoList ts) \<Longrightarrow>
     \<exists>p. validate_list_query lq = Inr p \<and> ts = list_todos rows now p"
  by (cases "validate_list_query lq") (simp_all add: route_def)

lemma handle_read:
  "\<not> requires_key req \<Longrightarrow> handle API_KEY header req now db_now rows = route req now db_now rows"
  by (simp add: handle_def)

lemma export_query_eq:
  "export_query rows incl = order_by By_todo_id Asc (filter (\<lambda>t. incl \<or> \<not> is_deleted t) rows)"
  by (simp add: export_query_def)

lemma todos_stats_filtered:
  "todos_stats rows False = todos_stats (filter (\<lambda>t. \<not> is_deleted t) rows) True"
  by (simp add: todos_stats_def)

lemma export_todos_filtered:
  "export_todos rows format False = export_todos (filter (\<lambda>t. \<not> is_deleted t) rows) format True"
  by (simp add: export_todos_def export_query_def)

section \<open>Every stored priority is one of the three levels\<close>

lemma get_or_404_Inr:
  assumes "get_or_404 rows tid incl = Inr t"
  shows "t \<in> set rows \<and> todo_id t = tid \<and> (incl \<or> \<not> is_deleted t)"
proof -
  let ?q = "filter (\<lambda>t. todo_id t = tid \<and> (incl \<or> \<not> is_deleted t)) rows"
  have eq: "get_or_404 rows tid incl
      = (case ?q of [] \<Rightarrow> Inl (HTTPException 404 ''Todo not found'') | todo # rest \<Rightarrow> Inr todo)"
    by (cases incl) (simp_all add: get_or_404_def Let_def conj_commute)
  with assms obtain rest where "?q = t # rest"
    by (cases ?q) auto
  then have "t \<in> set ?q" by simp
  then show ?thesis by auto
qed

lemma int_of_Priority_range:
  "int_of_Priority p = 1 \<or> int_of_Priority p = 2 \<or> int_of_Priority p = 3"
  by (cases p) simp_all

lemma priority_valid_commit:
  assumes "priority_valid rows" and "priority todo = 1 \<or> priority todo = 2 \<or> priority todo = 3"
  shows "priority_valid (snd (commit db_now rows loaded todo))"
  using assms by (auto simp: priority_valid_def commit_def Let_def)

lemma priority_valid_append:
  "priority_valid (xs @ ys) = (priority_valid xs \<and> priority_valid ys)"
  by (auto simp: priority_valid_def)

lemma priority_valid_loaded:
  "priority_valid rows \<Longrightarrow> get_or_404 rows tid incl = Inr t \<Longrightarrow>
     priority t = 1 \<or> priority t = 2 \<or> priority t = 3"
  by (auto simp: priority_valid_def dest!: get_or_404_Inr)

lemma priority_valid_create:
  "priority_valid rows \<Longrightarrow> priority_valid (snd (create_todo db_now todo rows))"
  using int_of_Priority_range [of "tb_priority todo"]
  by (simp add: create_todo_def Let_def priority_valid_append) (simp add: priority_valid_def)

lemma priority_valid_replace:
  assumes "priority_valid rows"
  shows "priority_valid (snd (replace_todo db_now tid payload rows))"
proof (cases "get_or_404 rows tid False")
  case (Inl e)
  with assms show ?thesis by (simp add: replace_todo_def)
next
  case (Inr todo)
  show ?thesis
    unfolding replace_todo_def Inr sum.case
    by (rule priority_valid_commit [OF assms]) (simp add: int_of_Priority_range)
qed

lemma priority_valid_update:
  assumes "priority_valid rows"
  shows "priority_valid (snd (update_todo db_now tid payload rows))"
proof (cases "get_or_404 rows tid False")
  case (Inl e)
  with assms show ?thesis by (simp add: update_todo_def)
next
  case (Inr todo)
  note old = priority_valid_loaded [OF assms Inr]
  let ?prio = "case tu_priority payload of Given p \<Rightarrow> int_of_Priority p | _ \<Rightarrow> priority todo"
  have prio: "?prio = 1 \<or> ?prio = 2 \<or> ?prio = 3"
    using old int_of_Priority_range by (cases "tu_priority payload") simp_all
  show ?thesis
  proof (cases "tu_priority payload = Null")
    case True
    with assms show ?thesis by (simp add: update_todo_def Inr Let_def)
  next
    case False
    show ?thesis
    proof (cases "assign (tu_todo_name payload) (Some (todo_name todo))")
      case None
      with assms False show ?thesis
        by (simp add: update_todo_def Inr Let_def split: field.splits)
    next
      case n: (Some n)
      show ?thesis
      proof (cases "assign (tu_todo_description payload) (Some (todo_description todo))")
        case None
        with assms False n show ?thesis
          by (simp add: update_todo_def Inr Let_def split: field.splits)
      next
        case d: (Some d)
        show ?thesis
        proof (cases "assign (tu_status payload) (Some (status todo))")
          case None
          with assms False n d show ?thesis
            by (simp add: update_todo_def Inr Let_def split: field.splits)
        next
          case s: (Some s)
          have "priority_valid (snd (commit db_now rows todo
                  (todo\<lparr>todo_name := n, todo_description := d, priority := ?prio, status := s,
                        due_date := assign (tu_due_date payload) (due_date todo)\<rparr>)))"
            by (rule priority_valid_commit [OF assms]) (use prio in simp)
          with False n d s show ?thesis
            by (cases "tu_priority payload") (simp_all add: update_todo_def Inr Let_def)
        qed
      qed
    qed
  qed
qed

lemma priority_valid_update_status:
  assumes "priority_valid rows"
  shows "priority_valid (snd (update_todo_status db_now tid st rows))"
proof (cases "get_or_404 rows tid False")
  case (Inl e)
  with assms show ?thesis by (simp add: update_todo_status_def)
next
  case (Inr todo)
  show ?thesis
    unfolding update_todo_status_def Inr sum.case
    by (rule priority_valid_commit [OF assms]) (use priority_valid_loaded [OF assms Inr] in simp)
qed

lemma priority_valid_restore:
  assumes "priority_valid rows"
  shows "priority_valid (snd (restore_todo db_now tid rows))"
proof (cases "get_or_404 rows tid True")
  case (Inl e)
  with assms show ?thesis by (simp add: restore_todo_def)
next
  case (Inr todo)
  show ?thesis
    unfolding restore_todo_def Inr sum.case
    by (rule priority_valid_commit [OF assms]) (use priority_valid_loaded [OF assms Inr] in simp)
qed

lemma priority_valid_delete:
  assumes "priority_valid rows"
  shows "priority_valid (snd (delete_todo db_now tid rows))"
proof (cases "get_or_404 rows tid False")
  case (Inl e)
  with assms show ?thesis by (simp add: delete_todo_def)
next
  case (Inr todo)
  have "priority_valid (snd (commit db_now rows todo (todo\<lparr>is_deleted := True\<rparr>)))"
    by (rule priority_valid_commit [OF assms]) (use priority_valid_loaded [OF assms Inr] in simp)
  then show ?thesis
    by (simp add: delete_todo_def Inr case_prod_beta)
qed

lemma snd_answer: "snd (answer f r) = snd r"
  by (cases r; cases "fst r") (auto simp: answer_def)

lemma priority_valid_route:
  assumes "priority_valid rows"
  shows "priority_valid (snd (route req now db_now rows))"
proof (cases req)
  case Health
  with assms show ?thesis by (simp add: route_def)
next
  case (ListTodos lq)
  with assms show ?thesis by (simp add: route_def split: sum.splits)
next
  case (ExportTodos fmt incl)
  with assms show ?thesis by (simp add: route_def split: option.splits)
next
  case (TodosStats incl)
  with assms show ?thesis by (simp add: route_def)
next
  case (GetTodo i)
  with assms show ?thesis by (simp add: route_def snd_answer split: sum.splits)
next
  case (CreateTodo b)
  with assms show ?thesis
    by (simp add: route_def snd_answer priority_valid_create split: sum.splits)
next
  case (ReplaceTodo i b)
  with assms show ?thesis
    by (simp add: route_def snd_answer priority_valid_replace split: sum.splits)
next
  case (UpdateTodo i b)
  with assms show ?thesis
    by (simp add: route_def snd_answer priority_valid_update split: sum.splits)
next
  case (UpdateTodoStatus i b)
  with assms show ?thesis
    by (simp add: route_def snd_answer priority_valid_update_status split: sum.splits)
next
  case (RestoreTodo i)
  with assms show ?thesis
    by (simp add: route_def snd_answer priority_valid_restore split: sum.splits)
next
  case (DeleteTodo i)
  with assms show ?thesis
    by (simp add: route_def snd_answer priority_valid_delete split: sum.splits)
qed

lemma priority_valid_handle:
  "priority_valid rows \<Longrightarrow> priority_valid (snd (handle API_KEY header req now db_now rows))"
  by (simp add: handle_def priority_valid_route split: sum.splits)

lemma priority_valid_seed:
  "priority_valid rows \<Longrightarrow> priority_valid (seed_data now db_now rows)"
  by (simp add: seed_data_def priority_valid_append split: list.splits)
    (simp add: priority_valid_def seed_rows_def)

lemma reachable_priority_valid: "reachable rows \<Longrightarrow> priority_valid rows"
proof (induction rule: reachable.induct)
  case reachable_empty
  show ?case by (simp add: priority_valid_def)
next
  case (reachable_seed rows now db_now)
  then show ?case by (simp add: priority_valid_seed)
next
  case (reachable_step rows API_KEY header req now db_now)
  then show ?case by (simp add: priority_valid_handle)
qed

lemma count_by_priority:
  assumes "\<forall>t \<in> set xs. priority t = 1 \<or> priority t = 2 \<or> priority t = 3"
  shows "length xs = length (filter (\<lambda>t. priority t = 1) xs)
       + length (filter (\<lambda>t. priority t = 2) xs) + length (filter (\<lambda>t. priority t = 3) xs)"
  using assms by (induction xs) auto

section \<open>Soft-deleted rows in listings, statistics and exports\<close>

text \<open>
  Claim C1. A list request that leaves \<^verbatim>\<open>include_deleted\<close> out or sets it to false
  returns no row whose \<^verbatim>\<open>is_deleted\<close> is true, whatever the table and the other
  parameters. Under the same setting the export and the statistics answer as they do,
  with every row included, on the table without its soft-deleted rows. With
  \<^verbatim>\<open>include_deleted=true\<close> a list request can return a soft-deleted row.
\<close>

theorem soft_deleted_rows_excluded:
  assumes "incl = None \<or> incl = Some False"
  shows "(lq_include_deleted lq = incl
           \<and> fst (handle API_KEY header (ListTodos lq) now db_now rows) = Inr (TodoList ts)
          \<longrightarrow> (\<forall>t \<in> set ts. \<not> is_deleted t))
       \<and> fst (handle API_KEY header (ExportTodos fmt incl) now db_now rows)
           = fst (handle API_KEY header (ExportTodos fmt (Some True)) now db_now
                    (filter (\<lambda>t. \<not> is_deleted t) rows))
       \<and> fst (handle API_KEY header (TodosStats incl) now db_now rows)
           = fst (handle API_KEY header (TodosStats (Some True)) now db_now
                    (filter (\<lambda>t. \<not> is_deleted t) rows))
       \<and> (\<exists>lq' rows' ts' t. lq_include_deleted lq' = Some True
             \<and> fst (handle API_KEY header (ListTodos lq') now db_now rows') = Inr (TodoList ts')
             \<and> t \<in> set ts' \<and> is_deleted t)"
proof (intro conjI impI)
  assume a: "lq_include_deleted lq = incl
     \<and> fst (handle API_KEY header (ListTodos lq) now db_now rows) = Inr (TodoList ts)"
  then obtain p where p: "validate_list_query lq = Inr p" "ts = list_todos rows now p"
    using route_ListTodos [of lq now db_now rows ts] by (auto simp: handle_read)
  from p(1) a assms have "\<not> lp_include_deleted p"
    by (auto dest: validate_list_query_Inr)
  with p(2) show "\<forall>t \<in> set ts. \<not> is_deleted t"
    using list_todos_passes [of _ rows now p] by (auto simp: passes_def)
next
  have "(case incl of None \<Rightarrow> False | Some b \<Rightarrow> b) = False"
    using assms by auto
  then show "fst (handle API_KEY header (ExportTodos fmt incl) now db_now rows)
           = fst (handle API_KEY header (ExportTodos fmt (Some True)) now db_now
                    (filter (\<lambda>t. \<not> is_deleted t) rows))"
    by (simp add: handle_read route_def export_todos_filtered split: option.splits)
next
  have "(case incl of None \<Rightarrow> False | Some b \<Rightarrow> b) = False"
    using assms by auto
  then show "fst (handle API_KEY header (TodosStats incl) now db_now rows)
           = fst (handle API_KEY header (TodosStats (Some True)) now db_now
                    (filter (\<lambda>t. \<not> is_deleted t) rows))"
    by (simp add: handle_read route_def todos_stats_filtered)
next
  let ?t = "\<lparr>todo_id = 1, todo_name = ''Read'', todo_description = ''Read chapter 5'',
             priority = 3, status = ''DONE'', due_date = None, is_deleted = True,
             created_at = 0, updated_at = 0\<rparr>"
  let ?lq = "default_list_query\<lparr>lq_include_deleted := Some True\<rparr>"
  have "fst (handle API_KEY header (ListTodos ?lq) now db_now [?t]) = Inr (TodoList [?t])"
    by (simp add: handle_read route_def validate_list_query_def default_list_query_def
        SortBy_of_string_def OrderBy_of_string_def list_todos_def list_filters_def
        order_by_def sort_by_rel_def)
  then show "\<exists>lq' rows' ts' t. lq_include_deleted lq' = Some True
             \<and> fst (handle API_KEY header (ListTodos lq') now db_now rows') = Inr (TodoList ts')
             \<and> t \<in> set ts' \<and> is_deleted t"
    by (intro exI [of _ ?lq] exI [of _ "[?t]"] exI [of _ ?t]) simp
qed

theorem soft_deleted_rows_excluded_witness:
  "lq_include_deleted default_list_query = None
   \<and> map todo_id (filter is_deleted sample_table) = [2]
   \<and> fst (handle ''name_here'' None (ListTodos default_list_query) 9 9 sample_table)
        = Inr (TodoList (list_todos sample_table 9 default_params))
   \<and> map todo_id (list_todos sample_table 9 default_params) = [1, 3, 4, 5]
   \<and> filter is_deleted (list_todos sample_table 9 default_params) = []"
proof -
  have h: "(None :: bool option) = None \<or> (None :: bool option) = Some False"
    by simp
  have q: "lq_include_deleted default_list_query = None"
    by (simp add: default_list_query_def)
  have r: "fst (handle ''name_here'' None (ListTodos default_list_query) 9 9 sample_table)
             = Inr (TodoList (list_todos sample_table 9 default_params))"
    by code_simp
  have d: "map todo_id (filter is_deleted sample_table) = [2]"
    by code_simp
  have i: "map todo_id (list_todos sample_table 9 default_params) = [1, 3, 4, 5]"
    by code_simp
  from soft_deleted_rows_excluded [OF h, where lq = default_list_query
      and API_KEY = "''name_here''" and header = None and now = 9 and db_now = 9
      and rows = sample_table and ts = "list_todos sample_table 9 default_params"] q r
  have "\<forall>t \<in> set (list_todos sample_table 9 default_params). \<not> is_deleted t"
    by blast
  then have "filter is_deleted (list_todos sample_table 9 default_params) = []"
    by (simp add: filter_empty_conv)
  with q r d i show ?thesis by blast
qed


section \<open>Sorting before the window\<close>

lemma str_le_lexorder: "str_le s t = (s \<le> t)"
  by (induction s t rule: str_le.induct) (auto simp: less_char_def)

lemma colval_le_option:
  "colval_le (case x of None \<Rightarrow> VNull | Some d \<Rightarrow> VInt d)
             (case y of None \<Rightarrow> VNull | Some d \<Rightarrow> VInt d) = (x \<le> y)"
  by (cases x; cases y) simp_all

lemma row_le_columns:
  "row_le By_todo_id ob a b = (if ob = Desc then todo_id b \<le> todo_id a else todo_id a \<le> todo_id b)"
  "row_le By_todo_name ob a b
     = (if ob = Desc then todo_name b \<le> todo_name a else todo_name a \<le> todo_name b)"
  "row_le By_priority ob a b
     = (if ob = Desc then priority b \<le> priority a else priority a \<le> priority b)"
  "row_le By_status ob a b = (if ob = Desc then status b \<le> status a else status a \<le> status b)"
  "row_le By_due_date ob a b
     = (if ob = Desc then due_date b \<le> due_date a else due_date a \<le> due_date b)"
  "row_le By_created_at ob a b
     = (if ob = Desc then created_at b \<le> created_at a else created_at a \<le> created_at b)"
  "row_le By_updated_at ob a b
     = (if ob = Desc then updated_at b \<le> updated_at a else updated_at a \<le> updated_at b)"
  by (simp_all add: row_le_def str_le_lexorder colval_le_option)

lemma ordered_from_row_le:
  assumes "\<And>a b. row_le sb ob a b = (if ob = Desc then f b \<le> f a else f a \<le> f b)"
    and "sorted_wrt (row_le sb ob) ts"
    and "OrderBy_of_string ord = Some ob"
  shows "ordered ord (map f ts)"
proof (cases ob)
  case Asc
  with assms(3) have "ord = ''asc''"
    by (simp add: OrderBy_of_string_def split: if_splits)
  moreover have "row_le sb ob = (\<lambda>a b. f a \<le> f b)"
    unfolding fun_eq_iff assms(1) by (simp add: Asc)
  with assms(2) have "sorted_wrt (\<lambda>a b. f a \<le> f b) ts"
    by simp
  ultimately show ?thesis
    by (simp add: ordered_def sorted_wrt_map)
next
  case Desc
  with assms(3) have "ord = ''desc''"
    by (simp add: OrderBy_of_string_def split: if_splits)
  moreover have "row_le sb ob = (\<lambda>a b. f b \<le> f a)"
    unfolding fun_eq_iff assms(1) by (simp add: Desc)
  with assms(2) have "sorted_wrt (\<lambda>a b. f b \<le> f a) ts"
    by simp
  ultimately show ?thesis
    by (simp add: ordered_def sorted_wrt_map)
qed

lemma monotonic_on_from_row_le:
  assumes "sorted_wrt (row_le sb ob) ts"
    and "SortBy_of_string sort_by = Some sb"
    and "OrderBy_of_string ord = Some ob"
  shows "monotonic_on sort_by ord ts"
proof (cases sb)
  case By_todo_id
  with assms(2) have "sort_by = ''todo_id''"
    by (simp add: SortBy_of_string_def split: if_splits)
  with ordered_from_row_le [OF row_le_columns(1) assms(1) [unfolded By_todo_id] assms(3)]
  show ?thesis by (simp add: monotonic_on_def)
next
  case By_todo_name
  with assms(2) have "sort_by = ''todo_name''"
    by (simp add: SortBy_of_string_def split: if_splits)
  with ordered_from_row_le [OF row_le_columns(2) assms(1) [unfolded By_todo_name] assms(3)]
  show ?thesis by (simp add: monotonic_on_def)
next
  case By_priority
  with assms(2) have "sort_by = ''priority''"
    by (simp add: SortBy_of_string_def split: if_splits)
  with ordered_from_row_le [OF row_le_columns(3) assms(1) [unfolded By_priority] assms(3)]
  show ?thesis by (simp add: monotonic_on_def)
next
  case By_status
  with assms(2) have "sort_by = ''status''"
    by (simp add: SortBy_of_string_def split: if_splits)
  with ordered_from_row_le [OF row_le_columns(4) assms(1) [unfolded By_status] assms(3)]
  show ?thesis by (simp add: monotonic_on_def)
next
  case By_due_date
  with assms(2) have "sort_by = ''due_date''"
    by (simp add: SortBy_of_string_def split: if_splits)
  with ordered_from_row_le [OF row_le_columns(5) assms(1) [unfolded By_due_date] assms(3)]
  show ?thesis by (simp add: monotonic_on_def)
next
  case By_created_at
  with assms(2) have "sort_by = ''created_at''"
    by (simp add: SortBy_of_string_def split: if_splits)
  with ordered_from_row_le [OF row_le_columns(6) assms(1) [unfolded By_created_at] assms(3)]
  show ?thesis by (simp add: monotonic_on_def)
next
  case By_updated_at
  with assms(2) have "sort_by = ''updated_at''"
    by (simp add: SortBy_of_string_def split: if_splits)
  with ordered_from_row_le [OF row_le_columns(7) assms(1) [unfolded By_updated_at] assms(3)]
  show ?thesis by (simp add: monotonic_on_def)
qed

text \<open>
  Claim C4. Let a list request be answered with rows, on any table. Then its
  \<^verbatim>\<open>sort_by\<close> and \<^verbatim>\<open>order\<close> (\<^verbatim>\<open>todo_id\<close> and \<^verbatim>\<open>asc\<close> when left out) are accepted
  values, and there is a sequence that holds every row passing the filters, each once, and
  is monotonic on the \<^verbatim>\<open>sort_by\<close> column, non-decreasing for \<^verbatim>\<open>asc\<close> and
  non-increasing for \<^verbatim>\<open>desc\<close>, of which the answer is the window: \<^verbatim>\<open>offset\<close> rows
  dropped, then \<^verbatim>\<open>limit\<close> rows taken. The answer is monotonic in the same way.
\<close>

theorem list_sorted_before_window:
  assumes "fst (handle API_KEY header (ListTodos lq) now db_now rows) = Inr (TodoList ts)"
  shows "\<exists>p full.
           validate_list_query lq = Inr p
         \<and> mset full = mset (list_filters now p rows)
         \<and> monotonic_on (case lq_sort_by lq of None \<Rightarrow> ''todo_id'' | Some s \<Rightarrow> s)
                        (case lq_order lq of None \<Rightarrow> ''asc'' | Some s \<Rightarrow> s) full
         \<and> ts = take (nat (case lq_limit lq of None \<Rightarrow> 10 | Some n \<Rightarrow> n))
                  (drop (nat (case lq_offset lq of None \<Rightarrow> 0 | Some n \<Rightarrow> n)) full)
         \<and> monotonic_on (case lq_sort_by lq of None \<Rightarrow> ''todo_id'' | Some s \<Rightarrow> s)
                        (case lq_order lq of None \<Rightarrow> ''asc'' | Some s \<Rightarrow> s) ts"
proof -
  let ?sort_by = "case lq_sort_by lq of None \<Rightarrow> ''todo_id'' | Some s \<Rightarrow> s"
  let ?ord = "case lq_order lq of None \<Rightarrow> ''asc'' | Some s \<Rightarrow> s"
  from assms obtain p where p: "validate_list_query lq = Inr p" "ts = list_todos rows now p"
    using route_ListTodos [of lq now db_now rows ts] by (auto simp: handle_read)
  note v = validate_list_query_Inr [OF p(1)]
  define full where "full = order_by (lp_sort_by p) (lp_order p) (list_filters now p rows)"
  have w: "ts = take (nat (case lq_limit lq of None \<Rightarrow> 10 | Some n \<Rightarrow> n))
                  (drop (nat (case lq_offset lq of None \<Rightarrow> 0 | Some n \<Rightarrow> n)) full)"
    using v by (simp add: p(2) list_todos_def full_def)
  have s: "sorted_wrt (row_le (lp_sort_by p) (lp_order p)) full"
    unfolding full_def by (rule sorted_wrt_order_by)
  then have "sorted_wrt (row_le (lp_sort_by p) (lp_order p)) ts"
    unfolding w by (intro sorted_wrt_take sorted_wrt_drop)
  with s v have "monotonic_on ?sort_by ?ord full" "monotonic_on ?sort_by ?ord ts"
    by (auto intro: monotonic_on_from_row_le)
  moreover have "mset full = mset (list_filters now p rows)"
    unfolding full_def by (rule mset_order_by)
  ultimately show ?thesis
    using p(1) w by blast
qed

theorem list_sorted_before_window_witness:
  "fst (handle ''name_here'' None
         (ListTodos (default_list_query\<lparr>lq_sort_by := Some ''priority'', lq_order := Some ''desc'',
                                        lq_limit := Some 3, lq_offset := Some 1\<rparr>))
         9 9 seeded_table)
     = Inr (TodoList (list_todos seeded_table 9
             (default_params\<lparr>lp_sort_by := By_priority, lp_order := Desc, lp_limit := 3,
                             lp_offset := 1\<rparr>)))
   \<and> map priority (list_todos seeded_table 9
        (default_params\<lparr>lp_sort_by := By_priority, lp_order := Desc, lp_limit := 3,
                        lp_offset := 1\<rparr>)) = [3, 2, 2]
   \<and> monotonic_on ''priority'' ''desc'' (list_todos seeded_table 9
        (default_params\<lparr>lp_sort_by := By_priority, lp_order := Desc, lp_limit := 3,
                        lp_offset := 1\<rparr>))"
proof -
  let ?lq = "default_list_query\<lparr>lq_sort_by := Some ''priority'', lq_order := Some ''desc'',
                                lq_limit := Some 3, lq_offset := Some 1\<rparr>"
  let ?ts = "list_todos seeded_table 9
        (default_params\<lparr>lp_sort_by := By_priority, lp_order := Desc, lp_limit := 3,
                        lp_offset := 1\<rparr>)"
  have r: "fst (handle ''name_here'' None (ListTodos ?lq) 9 9 seeded_table) = Inr (TodoList ?ts)"
    by code_simp
  have n: "map priority ?ts = [3, 2, 2]"
    by code_simp
  from list_sorted_before_window [OF r]
  have "monotonic_on ''priority'' ''desc'' ?ts"
    by auto
  with r n show ?thesis by blast
qed


section \<open>Statistics\<close>

lemma route_TodosStats:
  "fst (handle API_KEY header (TodosStats io) now db_now rows)
     = Inr (Stats (todos_stats rows (io = Some True)))"
  by (cases io) (simp_all add: handle_def route_def)

text \<open>
  Claim C9. On every table the service can reach, the four numbers of the statistics
  satisfy \<open>total = high + medium + low\<close>; \<open>total\<close> counts the rows left by the
  soft-delete filter and each of the other three counts the rows of its priority level
  among them.
\<close>

theorem stats_total_is_sum:
  assumes "reachable rows"
    and "fst (handle API_KEY header (TodosStats io) now db_now rows) = Inr (Stats s)"
  shows "total s = high s + medium s + low s
       \<and> total s = length (filter (\<lambda>t. io = Some True \<or> \<not> is_deleted t) rows)
       \<and> high s = length (filter (\<lambda>t. priority t = int_of_Priority HIGH)
                    (filter (\<lambda>t. io = Some True \<or> \<not> is_deleted t) rows))
       \<and> medium s = length (filter (\<lambda>t. priority t = int_of_Priority MEDIUM)
                    (filter (\<lambda>t. io = Some True \<or> \<not> is_deleted t) rows))
       \<and> low s = length (filter (\<lambda>t. priority t = int_of_Priority LOW)
                    (filter (\<lambda>t. io = Some True \<or> \<not> is_deleted t) rows))"
proof -
  let ?base = "filter (\<lambda>t. io = Some True \<or> \<not> is_deleted t) rows"
  from assms(2) have s: "s = todos_stats rows (io = Some True)"
    by (simp add: route_TodosStats)
  have base: "(if \<not> (io = Some True) then filter (\<lambda>t. is_deleted t = False) rows else rows) = ?base"
    by simp
  have parts: "total s = length ?base"
    "high s = length (filter (\<lambda>t. priority t = 1) ?base)"
    "medium s = length (filter (\<lambda>t. priority t = 2) ?base)"
    "low s = length (filter (\<lambda>t. priority t = 3) ?base)"
    unfolding s todos_stats_def Let_def base by simp_all
  from reachable_priority_valid [OF assms(1)]
  have "\<forall>t \<in> set ?base. priority t = 1 \<or> priority t = 2 \<or> priority t = 3"
    by (simp add: priority_valid_def)
  from count_by_priority [OF this] parts show ?thesis
    by simp
qed

theorem stats_total_is_sum_witness:
  "reachable sample_table
   \<and> fst (handle ''name_here'' None (TodosStats None) 9 9 sample_table)
       = Inr (Stats \<lparr>total = 4, high = 0, medium = 2, low = 2\<rparr>)
   \<and> total \<lparr>total = 4, high = 0, medium = 2, low = 2\<rparr>
       = high \<lparr>total = 4, high = 0, medium = 2, low = 2\<rparr>
         + medium \<lparr>total = 4, high = 0, medium = 2, low = 2\<rparr>
         + low \<lparr>total = 4, high = 0, medium = 2, low = 2\<rparr>"
proof -
  have "reachable seeded_table"
    unfolding seeded_table_def by (intro reachable_seed reachable_empty)
  then have r: "reachable sample_table"
    unfolding sample_table_def by (rule reachable_step)
  have e: "fst (handle ''name_here'' None (TodosStats None) 9 9 sample_table)
       = Inr (Stats \<lparr>total = 4, high = 0, medium = 2, low = 2\<rparr>)"
    by code_simp
  from stats_total_is_sum [OF r e] r e show ?thesis by blast
qed


section \<open>The API key\<close>

text \<open>
  On a route that requires the key, a request whose \<^verbatim>\<open>X-API-Key\<close> value (the empty
  string when the header is absent) is not the configured one is answered 401 with the
  table untouched, before the parameters of the route are looked at; with the configured
  value the request goes to its route.
\<close>

lemma wrong_key_rejected:
  assumes "requires_key req" and "(case header of None \<Rightarrow> [] | Some v \<Rightarrow> v) \<noteq> API_KEY"
  shows "handle API_KEY header req now db_now rows
           = (Inl (HTTPException 401 ''Invalid or missing API key''), rows)"
  using assms by (simp add: handle_def require_api_key_def)

lemma right_key_accepted:
  "(case header of None \<Rightarrow> [] | Some v \<Rightarrow> v) = API_KEY \<Longrightarrow>
     handle API_KEY header req now db_now rows = route req now db_now rows"
  by (simp add: handle_def require_api_key_def)

text \<open>
  Claim C2 asks for 401 and an unchanged table whenever the header differs from the
  configured secret or is absent. With the secret configured as the empty string
  (\<^verbatim>\<open>TODO_API_KEY=\<close> in the environment) a request without the header passes
  \<^verbatim>\<open>require_api_key\<close>: the \<^verbatim>\<open>DELETE /todos/2\<close> below is answered 204 and soft-deletes
  the row.
\<close>

theorem absent_key_passes_empty_secret:
  "fst (handle [] None (DeleteTodo 2) 8 8 seeded_table) = Inr NoContent
   \<and> map is_deleted (snd (handle [] None (DeleteTodo 2) 8 8 seeded_table))
       = [False, True, False, False, False]
   \<and> map is_deleted seeded_table = [False, False, False, False, False]"
  by code_simp

section \<open>Path ids below 1\<close>






section \<open>The values of \<^verbatim>\<open>sort_by\<close>\<close>

lemma validate_list_query_Inl:
  "validate_list_query lq = Inl e \<Longrightarrow> e = RequestValidationError"
  unfolding validate_list_query_def Let_def
  by (simp split: prod.splits option.splits if_splits)

lemma SortBy_of_string_Some:
  "(\<exists>sb. SortBy_of_string s = Some sb)
     = (s \<in> set [''todo_id'', ''todo_name'', ''priority'', ''status'', ''due_date'',
                  ''created_at'', ''updated_at''])"
  by (simp add: SortBy_of_string_def)

lemma validate_list_query_sort_by:
  "validate_list_query (lq\<lparr>lq_sort_by := Some s\<rparr>)
     = (case SortBy_of_string s of
          None \<Rightarrow> Inl RequestValidationError
        | Some sb \<Rightarrow> map_sum id (\<lambda>p. p\<lparr>lp_sort_by := sb\<rparr>)
                       (validate_list_query (lq\<lparr>lq_sort_by := None\<rparr>)))"
proof -
  let ?prio = "case lq_priority lq of None \<Rightarrow> Some None
               | Some k \<Rightarrow> map_option Some (Priority_of_int k)"
  let ?ob = "case lq_order lq of None \<Rightarrow> OrderBy_of_string ''asc''
             | Some s \<Rightarrow> OrderBy_of_string s"
  have d: "SortBy_of_string ''todo_id'' = Some By_todo_id"
    by (simp add: SortBy_of_string_def)
  show ?thesis
    unfolding validate_list_query_def Let_def
    by (cases "SortBy_of_string s"; cases ?prio; cases ?ob) (simp_all add: d)
qed

lemma validate_list_query_default_sort_by:
  "validate_list_query (lq\<lparr>lq_sort_by := None\<rparr>)
     = validate_list_query (lq\<lparr>lq_sort_by := Some ''todo_id''\<rparr>)"
proof -
  let ?prio = "case lq_priority lq of None \<Rightarrow> Some None
               | Some k \<Rightarrow> map_option Some (Priority_of_int k)"
  let ?ob = "case lq_order lq of None \<Rightarrow> OrderBy_of_string ''asc''
             | Some s \<Rightarrow> OrderBy_of_string s"
  show ?thesis
    unfolding validate_list_query_def Let_def
    by (cases ?prio; cases ?ob) (simp_all add: SortBy_of_string_def)
qed

lemma handle_ListTodos:
  "handle API_KEY header (ListTodos lq) now db_now rows
     = (case validate_list_query lq of
          Inl e \<Rightarrow> (Inl e, rows)
        | Inr p \<Rightarrow> (Inr (TodoList (list_todos rows now p)), rows))"
  by (simp add: handle_def route_def)

text \<open>
  Claim C7 lists \<^verbatim>\<open>id\<close> and \<^verbatim>\<open>name\<close> among the accepted values. The route accepts
  the column names of the table, \<^verbatim>\<open>todo_id\<close> and \<^verbatim>\<open>todo_name\<close>; \<^verbatim>\<open>sort_by=id\<close> and
  \<^verbatim>\<open>sort_by=name\<close> are rejected.
\<close>

theorem sort_by_id_rejected:
  "handle ''name_here'' None (ListTodos (default_list_query\<lparr>lq_sort_by := Some ''id''\<rparr>)) 9 9
     seeded_table = (Inl RequestValidationError, seeded_table)
   \<and> handle ''name_here'' None (ListTodos (default_list_query\<lparr>lq_sort_by := Some ''name''\<rparr>)) 9 9
     seeded_table = (Inl RequestValidationError, seeded_table)"
  by (simp add: handle_ListTodos validate_list_query_sort_by SortBy_of_string_def)

text \<open>
  Claim C7, amended. The list route accepts exactly the \<^verbatim>\<open>sort_by\<close> values
  \<^verbatim>\<open>todo_id\<close>, \<^verbatim>\<open>todo_name\<close>, \<^verbatim>\<open>priority\<close>, \<^verbatim>\<open>status\<close>, \<^verbatim>\<open>due_date\<close>,
  \<^verbatim>\<open>created_at\<close>, \<^verbatim>\<open>updated_at\<close>: a request with one of them fails only if it fails
  without \<^verbatim>\<open>sort_by\<close>, a request with any other value is answered with the validation
  error and nothing else, and a request without \<^verbatim>\<open>sort_by\<close> is the request with
  \<^verbatim>\<open>sort_by=todo_id\<close>.
\<close>

theorem sort_by_accepted_values:
  "(isl (fst (handle API_KEY header (ListTodos (lq\<lparr>lq_sort_by := Some s\<rparr>)) now db_now rows))
      = (s \<notin> set [''todo_id'', ''todo_name'', ''priority'', ''status'', ''due_date'',
                    ''created_at'', ''updated_at'']
         \<or> isl (fst (handle API_KEY header (ListTodos (lq\<lparr>lq_sort_by := None\<rparr>)) now db_now rows))))
   \<and> (s \<notin> set [''todo_id'', ''todo_name'', ''priority'', ''status'', ''due_date'',
                 ''created_at'', ''updated_at'']
        \<longrightarrow> handle API_KEY header (ListTodos (lq\<lparr>lq_sort_by := Some s\<rparr>)) now db_now rows
              = (Inl RequestValidationError, rows))
   \<and> handle API_KEY header (ListTodos (lq\<lparr>lq_sort_by := None\<rparr>)) now db_now rows
       = handle API_KEY header (ListTodos (lq\<lparr>lq_sort_by := Some ''todo_id''\<rparr>)) now db_now rows"
proof -
  let ?names = "set [''todo_id'', ''todo_name'', ''priority'', ''status'', ''due_date'',
                    ''created_at'', ''updated_at'']"
  let ?v = "validate_list_query (lq\<lparr>lq_sort_by := None\<rparr>)"
  have dflt: "handle API_KEY header (ListTodos (lq\<lparr>lq_sort_by := None\<rparr>)) now db_now rows
       = handle API_KEY header (ListTodos (lq\<lparr>lq_sort_by := Some ''todo_id''\<rparr>)) now db_now rows"
    by (simp add: handle_ListTodos validate_list_query_default_sort_by)
  have unknown: "handle API_KEY header (ListTodos (lq\<lparr>lq_sort_by := Some s\<rparr>)) now db_now rows
              = (Inl RequestValidationError, rows)" if "s \<notin> ?names"
  proof -
    from that have "SortBy_of_string s = None"
      using SortBy_of_string_Some [of s] by (cases "SortBy_of_string s") auto
    then show ?thesis
      by (simp add: handle_ListTodos validate_list_query_sort_by)
  qed
  have known: "isl (fst (handle API_KEY header (ListTodos (lq\<lparr>lq_sort_by := Some s\<rparr>)) now db_now rows))
      = isl (fst (handle API_KEY header (ListTodos (lq\<lparr>lq_sort_by := None\<rparr>)) now db_now rows))"
    if "s \<in> ?names"
  proof -
    from that obtain sb where "SortBy_of_string s = Some sb"
      using SortBy_of_string_Some [of s] by blast
    then show ?thesis
      by (cases ?v) (simp_all add: handle_ListTodos validate_list_query_sort_by)
  qed
  show ?thesis
  proof (cases "s \<in> ?names")
    case True
    with known dflt show ?thesis by simp
  next
    case False
    with unknown dflt show ?thesis by simp
  qed
qed

theorem sort_by_accepted_values_witness:
  "\<not> isl (fst (handle ''name_here'' None
       (ListTodos (default_list_query\<lparr>lq_sort_by := Some ''todo_name''\<rparr>)) 9 9 seeded_table))
   \<and> handle ''name_here'' None
       (ListTodos (default_list_query\<lparr>lq_sort_by := Some ''title''\<rparr>)) 9 9 seeded_table
      = (Inl RequestValidationError, seeded_table)"
proof -
  have d: "\<not> isl (fst (handle ''name_here'' None
       (ListTodos (default_list_query\<lparr>lq_sort_by := None\<rparr>)) 9 9 seeded_table))"
    by code_simp
  have m: "''todo_name'' \<in> set [''todo_id'', ''todo_name'', ''priority'', ''status'',
              ''due_date'', ''created_at'', ''updated_at'']"
    "''title'' \<notin> set [''todo_id'', ''todo_name'', ''priority'', ''status'',
              ''due_date'', ''created_at'', ''updated_at'']"
    by simp_all
  from sort_by_accepted_values [where s = "''todo_name''" and lq = default_list_query
      and API_KEY = "''name_here''" and header = None and now = 9 and db_now = 9
      and rows = seeded_table]
    sort_by_accepted_values [where s = "''title''" and lq = default_list_query
      and API_KEY = "''name_here''" and header = None and now = 9 and db_now = 9
      and rows = seeded_table]
    d m
  show ?thesis by blast
qed


section \<open>Loading and writing one row\<close>

lemma get_or_404_filter:
  "get_or_404 rows tid incl
     = (case filter (\<lambda>t. todo_id t = tid \<and> (incl \<or> \<not> is_deleted t)) rows of
          [] \<Rightarrow> Inl (HTTPException 404 ''Todo not found'')
        | todo # rest \<Rightarrow> Inr todo)"
  by (cases incl) (simp_all add: get_or_404_def Let_def conj_commute)

lemma commit_changed:
  "todo \<noteq> loaded \<Longrightarrow>
     commit db_now rows loaded todo
       = (Inr (todo\<lparr>updated_at := db_now\<rparr>),
          map (\<lambda>a. if todo_id a = todo_id loaded then todo\<lparr>updated_at := db_now\<rparr> else a) rows)"
  by (simp add: commit_def Let_def)

lemma get_or_404_replaced:
  assumes "t \<in> set rows" and "todo_id t = X" and "todo_id row = X"
    and "incl \<or> \<not> is_deleted row"
  shows "get_or_404 (map (\<lambda>a. if todo_id a = X then row else a) rows) X incl = Inr row"
proof -
  let ?f = "\<lambda>a. if todo_id a = X then row else a"
  let ?P = "\<lambda>a. todo_id a = X \<and> (incl \<or> \<not> is_deleted a)"
  have "?P \<circ> ?f = (\<lambda>a. todo_id a = X)"
    using assms(3,4) by (auto simp: fun_eq_iff)
  then have "filter ?P (map ?f rows) = map ?f (filter (\<lambda>a. todo_id a = X) rows)"
    by (simp add: filter_map)
  also have "\<dots> = map (\<lambda>a. row) (filter (\<lambda>a. todo_id a = X) rows)"
    by (intro map_cong) auto
  finally have eq: "filter ?P (map ?f rows) = map (\<lambda>a. row) (filter (\<lambda>a. todo_id a = X) rows)" .
  from assms(1,2) have "filter (\<lambda>a. todo_id a = X) rows \<noteq> []"
    by (auto simp: filter_empty_conv)
  then obtain a rest where "filter (\<lambda>a. todo_id a = X) rows = a # rest"
    by (cases "filter (\<lambda>a. todo_id a = X) rows") auto
  with eq have "filter ?P (map ?f rows) = row # map (\<lambda>a. row) rest"
    by simp
  then show ?thesis
    by (simp add: get_or_404_filter)
qed

lemma get_or_404_after_commit:
  assumes "get_or_404 rows X incl = Inr t" and "todo_id new = X" and "incl \<or> \<not> is_deleted new"
  shows "get_or_404 (snd (commit db_now rows t new)) X incl = fst (commit db_now rows t new)"
proof (cases "new = t")
  case True
  with assms(1) show ?thesis by (simp add: commit_def)
next
  case False
  from get_or_404_Inr [OF assms(1)] have t: "t \<in> set rows" "todo_id t = X"
    by simp_all
  have "get_or_404 (map (\<lambda>a. if todo_id a = X then new\<lparr>updated_at := db_now\<rparr> else a) rows) X incl
          = Inr (new\<lparr>updated_at := db_now\<rparr>)"
    by (rule get_or_404_replaced [OF t]) (simp_all add: assms(2,3))
  then show ?thesis
    by (simp add: commit_changed [OF False] t(2))
qed

lemma update_todo_loaded:
  assumes "get_or_404 rows X False = Inr t"
  shows "update_todo db_now X payload rows
     = (if tu_priority payload = Null then (Inl TypeError, rows)
        else if tu_todo_name payload = Null \<or> tu_todo_description payload = Null
                \<or> tu_status payload = Null
        then (Inl IntegrityError, rows)
        else commit db_now rows t
               (t\<lparr>todo_name := (case tu_todo_name payload of Given n \<Rightarrow> n | _ \<Rightarrow> todo_name t),
                   todo_description :=
                     (case tu_todo_description payload of Given d \<Rightarrow> d
                      | _ \<Rightarrow> todo_description t),
                   priority :=
                     (case tu_priority payload of Given p \<Rightarrow> int_of_Priority p
                      | _ \<Rightarrow> priority t),
                   status := (case tu_status payload of Given s \<Rightarrow> s | _ \<Rightarrow> status t),
                   due_date := assign (tu_due_date payload) (due_date t)\<rparr>))"
  unfolding update_todo_def assms sum.case Let_def
  by (cases "tu_priority payload"; cases "tu_todo_name payload";
      cases "tu_todo_description payload"; cases "tu_status payload") simp_all

lemma validate_TodoUpdate_Inr:
  assumes "validate_TodoUpdate b = Inr payload"
  shows "tu_todo_name payload = b_todo_name b
       \<and> tu_todo_description payload = b_todo_description b
       \<and> tu_status payload = b_status b
       \<and> tu_due_date payload = b_due_date b
       \<and> (b_priority b = Omitted) = (tu_priority payload = Omitted)
       \<and> (b_priority b = Null) = (tu_priority payload = Null)"
proof -
  let ?p = "case b_priority b of Omitted \<Rightarrow> Some Omitted | Null \<Rightarrow> Some Null
            | Given k \<Rightarrow> map_option Given (Priority_of_int k)"
  from assms obtain p' where p: "?p = Some p'"
    unfolding validate_TodoUpdate_def Let_def by (cases ?p) simp_all
  from assms have "payload = \<lparr>tu_todo_name = b_todo_name b,
       tu_todo_description = b_todo_description b, tu_priority = p',
       tu_status = b_status b, tu_due_date = b_due_date b\<rparr>"
    unfolding validate_TodoUpdate_def Let_def p by (simp split: if_splits)
  moreover from p have "(b_priority b = Omitted) = (p' = Omitted)" "(b_priority b = Null) = (p' = Null)"
    by (cases "b_priority b"; auto)+
  ultimately show ?thesis by simp
qed

section \<open>The JSON export\<close>

lemma row_le_todo_id: "row_le By_todo_id Asc a b = (todo_id a \<le> todo_id b)"
  by (simp add: row_le_def)

text \<open>
  Claim C8 names the keys of an exported object \<^verbatim>\<open>id\<close>, \<^verbatim>\<open>name\<close>, \<^verbatim>\<open>description\<close>,
  and so on. The objects carry the column names: \<^verbatim>\<open>todo_id\<close>, \<^verbatim>\<open>todo_name\<close>,
  \<^verbatim>\<open>todo_description\<close> in place of the first three.
\<close>

theorem export_json_keys_are_column_names:
  "map (map fst)
     (case export_todos (take 1 seeded_table) Json False of
        JsonExport objs \<Rightarrow> objs | CsvExport rs \<Rightarrow> [])
     = [[''todo_id'', ''todo_name'', ''todo_description'', ''priority'', ''status'',
         ''due_date'', ''is_deleted'', ''created_at'', ''updated_at'']]
   \<and> set [''todo_id'', ''todo_name'', ''todo_description'', ''priority'', ''status'',
         ''due_date'', ''is_deleted'', ''created_at'', ''updated_at'']
      \<noteq> {''id'', ''name'', ''description'', ''priority'', ''status'', ''due_date'',
          ''is_deleted'', ''created_at'', ''updated_at''}"
proof -
  have "map (map fst)
     (case export_todos (take 1 seeded_table) Json False of
        JsonExport objs \<Rightarrow> objs | CsvExport rs \<Rightarrow> [])
     = [[''todo_id'', ''todo_name'', ''todo_description'', ''priority'', ''status'',
         ''due_date'', ''is_deleted'', ''created_at'', ''updated_at'']]"
    by code_simp
  moreover have "''todo_id'' \<notin> {''id'', ''name'', ''description'', ''priority'', ''status'',
      ''due_date'', ''is_deleted'', ''created_at'', ''updated_at''}"
    by simp
  then have "set [''todo_id'', ''todo_name'', ''todo_description'', ''priority'', ''status'',
         ''due_date'', ''is_deleted'', ''created_at'', ''updated_at'']
      \<noteq> {''id'', ''name'', ''description'', ''priority'', ''status'', ''due_date'',
          ''is_deleted'', ''created_at'', ''updated_at''}"
    by (metis list.set_intros(1))
  ultimately show ?thesis by blast
qed

text \<open>
  Claim C8, amended. For every table and every \<^verbatim>\<open>include_deleted\<close>, the JSON export is
  one object per row of the soft-delete-filtered table, every such row once (no window is
  cut out), in ascending order of \<^verbatim>\<open>todo_id\<close>; each object has exactly the keys
  \<^verbatim>\<open>todo_id\<close>, \<^verbatim>\<open>todo_name\<close>, \<^verbatim>\<open>todo_description\<close>, \<^verbatim>\<open>priority\<close>, \<^verbatim>\<open>status\<close>,
  \<^verbatim>\<open>due_date\<close>, \<^verbatim>\<open>is_deleted\<close>, \<^verbatim>\<open>created_at\<close>, \<^verbatim>\<open>updated_at\<close>, and a null
  \<^verbatim>\<open>due_date\<close> is exported as null.
\<close>

theorem export_json_full_sorted:
  "export_todos rows Json incl
     = JsonExport
         (map (\<lambda>t. [(''todo_id'', JInt (todo_id t)),
                    (''todo_name'', JStr (todo_name t)),
                    (''todo_description'', JStr (todo_description t)),
                    (''priority'', JInt (priority t)),
                    (''status'', JStr (status t)),
                    (''due_date'', (case due_date t of None \<Rightarrow> JNull | Some d \<Rightarrow> JDateTime d)),
                    (''is_deleted'', JBool (is_deleted t)),
                    (''created_at'', JDateTime (created_at t)),
                    (''updated_at'', JDateTime (updated_at t))])
            (export_query rows incl))
   \<and> mset (export_query rows incl) = mset (filter (\<lambda>t. incl \<or> \<not> is_deleted t) rows)
   \<and> sorted_wrt (\<lambda>a b. todo_id a \<le> todo_id b) (export_query rows incl)"
proof -
  have "sorted_wrt (row_le By_todo_id Asc) (export_query rows incl)"
    unfolding export_query_eq by (rule sorted_wrt_order_by)
  then have "sorted_wrt (\<lambda>a b. todo_id a \<le> todo_id b) (export_query rows incl)"
    by (simp add: row_le_todo_id [abs_def])
  moreover have "mset (export_query rows incl) = mset (filter (\<lambda>t. incl \<or> \<not> is_deleted t) rows)"
    unfolding export_query_eq by (rule mset_order_by)
  moreover have "export_todos rows Json incl = JsonExport (map json_of_todo (export_query rows incl))"
    by (simp add: export_todos_def)
  ultimately show ?thesis
    by (simp add: json_of_todo_def [abs_def])
qed

theorem export_json_full_sorted_witness:
  "export_todos (take 2 sample_table) Json False
     = JsonExport
         [[(''todo_id'', JInt 1), (''todo_name'', JStr ''Sports''),
           (''todo_description'', JStr ''Go to the Gym''), (''priority'', JInt 2),
           (''status'', JStr ''IN_PROGRESS''), (''due_date'', JNull),
           (''is_deleted'', JBool False), (''created_at'', JDateTime 7),
           (''updated_at'', JDateTime 7)]]"
proof -
  have q: "export_query (take 2 sample_table) False
      = [\<lparr>todo_id = 1, todo_name = ''Sports'', todo_description = ''Go to the Gym'',
           priority = 2, status = ''IN_PROGRESS'', due_date = None, is_deleted = False,
           created_at = 7, updated_at = 7\<rparr>]"
    by code_simp
  from export_json_full_sorted [of "take 2 sample_table" False]
  show ?thesis unfolding q by simp
qed

section \<open>Partial update\<close>

text \<open>
  Claim C6 says that a field given as explicit null is cleared, for every field. The
  payload \<^verbatim>\<open>{"todo_name": null}\<close> passes validation, and the update then fails at the
  commit: the name of the row is what it was.
\<close>

theorem null_name_not_cleared:
  "handle ''name_here'' (Some ''name_here'')
       (UpdateTodo 1 (empty_body\<lparr>b_todo_name := Null\<rparr>)) 9 9 seeded_table
     = (Inl IntegrityError, seeded_table)
   \<and> validate_TodoUpdate (empty_body\<lparr>b_todo_name := Null\<rparr>)
     = Inr \<lparr>tu_todo_name = Null, tu_todo_description = Omitted, tu_priority = Omitted,
            tu_status = Omitted, tu_due_date = Omitted\<rparr>
   \<and> map_sum id todo_name (get_todo seeded_table 1) = Inr ''Sports''"
  by code_simp

text \<open>
  Claim C6, amended. For every existing row that is not soft-deleted and every valid
  partial-update payload, each field the payload omits is unchanged after the operation;
  \<^verbatim>\<open>due_date\<close> given as explicit null is cleared, the payload giving no explicit null for
  \<^verbatim>\<open>todo_name\<close>, \<^verbatim>\<open>todo_description\<close>, \<^verbatim>\<open>priority\<close> or \<^verbatim>\<open>status\<close> (columns that
  hold no null); for \<^verbatim>\<open>due_date\<close> omitted and null are so two cases.
\<close>

theorem partial_update_frame:
  assumes "get_todo rows X = Inr t" and "validate_TodoUpdate b = Inr payload"
  shows "\<exists>t'. get_todo (snd (update_todo db_now X payload rows)) X = Inr t'
     \<and> (b_todo_name b = Omitted \<longrightarrow> todo_name t' = todo_name t)
     \<and> (b_todo_description b = Omitted \<longrightarrow> todo_description t' = todo_description t)
     \<and> (b_priority b = Omitted \<longrightarrow> priority t' = priority t)
     \<and> (b_status b = Omitted \<longrightarrow> status t' = status t)
     \<and> (b_due_date b = Omitted \<longrightarrow> due_date t' = due_date t)
     \<and> (b_due_date b = Null \<and> b_todo_name b \<noteq> Null \<and> b_todo_description b \<noteq> Null
          \<and> b_priority b \<noteq> Null \<and> b_status b \<noteq> Null
        \<longrightarrow> fst (update_todo db_now X payload rows) = Inr t' \<and> due_date t' = None)"
proof -
  from assms(1) have g: "get_or_404 rows X False = Inr t"
    by (simp add: get_todo_def)
  note v = validate_TodoUpdate_Inr [OF assms(2)]
  note u = update_todo_loaded [OF g, of db_now payload]
  show ?thesis
  proof (cases "tu_priority payload = Null \<or> tu_todo_name payload = Null
                \<or> tu_todo_description payload = Null \<or> tu_status payload = Null")
    case True
    then have "snd (update_todo db_now X payload rows) = rows"
      unfolding u by auto
    with assms(1) True v show ?thesis by auto
  next
    case False
    let ?new = "t\<lparr>todo_name := (case tu_todo_name payload of Given n \<Rightarrow> n | _ \<Rightarrow> todo_name t),
                   todo_description :=
                     (case tu_todo_description payload of Given d \<Rightarrow> d
                      | _ \<Rightarrow> todo_description t),
                   priority :=
                     (case tu_priority payload of Given p \<Rightarrow> int_of_Priority p
                      | _ \<Rightarrow> priority t),
                   status := (case tu_status payload of Given s \<Rightarrow> s | _ \<Rightarrow> status t),
                   due_date := assign (tu_due_date payload) (due_date t)\<rparr>"
    from False have c: "update_todo db_now X payload rows = commit db_now rows t ?new"
      unfolding u by simp
    from get_or_404_Inr [OF g] have "todo_id ?new = X" "False \<or> \<not> is_deleted ?new"
      by simp_all
    from get_or_404_after_commit [OF g this]
    have after: "get_todo (snd (update_todo db_now X payload rows)) X
                   = fst (update_todo db_now X payload rows)"
      by (simp add: c get_todo_def)
    show ?thesis
    proof (cases "?new = t")
      case True
      then have r: "fst (update_todo db_now X payload rows) = Inr t"
        by (simp add: c commit_def)
      have fields: "todo_name ?new = todo_name t" "due_date ?new = due_date t"
        using True by simp_all
      from fields(2) have "tu_due_date payload = Null \<longrightarrow> due_date t = None"
        by (cases "tu_due_date payload") simp_all
      with after r v show ?thesis by simp
    next
      case neq: False
      then have r: "fst (update_todo db_now X payload rows) = Inr (?new\<lparr>updated_at := db_now\<rparr>)"
        by (simp add: c commit_def Let_def)
      with after v show ?thesis
        by (intro exI [of _ "?new\<lparr>updated_at := db_now\<rparr>"]) auto
    qed
  qed
qed

theorem partial_update_frame_witness:
  "get_todo seeded_table 4
     = Inr \<lparr>todo_id = 4, todo_name = ''Work'',
            todo_description = ''Complete project documentation'', priority = 2,
            status = ''NEW'', due_date = Some 5, is_deleted = False, created_at = 7,
            updated_at = 7\<rparr>
   \<and> validate_TodoUpdate (empty_body\<lparr>b_due_date := Null\<rparr>)
     = Inr \<lparr>tu_todo_name = Omitted, tu_todo_description = Omitted, tu_priority = Omitted,
            tu_status = Omitted, tu_due_date = Null\<rparr>
   \<and> (\<exists>t'. fst (update_todo 9 4
                  \<lparr>tu_todo_name = Omitted, tu_todo_description = Omitted,
                   tu_priority = Omitted, tu_status = Omitted, tu_due_date = Null\<rparr>
                  seeded_table) = Inr t'
           \<and> due_date t' = None \<and> todo_name t' = ''Work'' \<and> status t' = ''NEW'')"
proof -
  let ?w = "\<lparr>todo_id = 4, todo_name = ''Work'',
            todo_description = ''Complete project documentation'', priority = 2,
            status = ''NEW'', due_date = Some 5, is_deleted = False, created_at = 7,
            updated_at = 7\<rparr>"
  let ?b = "empty_body\<lparr>b_due_date := Null\<rparr>"
  let ?p = "\<lparr>tu_todo_name = Omitted, tu_todo_description = Omitted, tu_priority = Omitted,
            tu_status = Omitted, tu_due_date = Null\<rparr>"
  have g: "get_todo seeded_table 4 = Inr ?w"
    by code_simp
  have v: "validate_TodoUpdate ?b = Inr ?p"
    by code_simp
  have b: "b_todo_name ?b = Omitted" "b_todo_description ?b = Omitted"
    "b_priority ?b = Omitted" "b_status ?b = Omitted" "b_due_date ?b = Null"
    by (simp_all add: empty_body_def)
  from partial_update_frame [OF g v, of 9] b
  have "\<exists>t'. fst (update_todo 9 4 ?p seeded_table) = Inr t'
           \<and> due_date t' = None \<and> todo_name t' = ''Work'' \<and> status t' = ''NEW''"
    by auto
  with g v show ?thesis by blast
qed

section \<open>The primary key\<close>

lemma commit_ids:
  "todo_id todo = todo_id loaded \<Longrightarrow>
     map todo_id (snd (commit db_now rows loaded todo)) = map todo_id rows"
  by (simp add: commit_def Let_def o_def cong: map_cong)

lemma next_id_above: "a \<in> set rows \<Longrightarrow> todo_id a < next_id rows"
  unfolding next_id_def by (induction rows) auto

lemma next_id_fresh: "next_id rows \<notin> set (map todo_id rows)"
proof
  assume "next_id rows \<in> set (map todo_id rows)"
  then obtain a where "a \<in> set rows" "todo_id a = next_id rows"
    by auto
  with next_id_above [of a rows] show False by simp
qed

lemma ids_replace:
  "map todo_id (snd (replace_todo db_now tid payload rows)) = map todo_id rows"
  by (cases "get_or_404 rows tid False") (simp_all add: replace_todo_def commit_ids)

lemma ids_update:
  "map todo_id (snd (update_todo db_now tid payload rows)) = map todo_id rows"
proof (cases "get_or_404 rows tid False")
  case (Inl e)
  then show ?thesis by (simp add: update_todo_def)
next
  case (Inr t)
  show ?thesis
    unfolding update_todo_loaded [OF Inr] by (simp add: commit_ids)
qed

lemma ids_update_status:
  "map todo_id (snd (update_todo_status db_now tid st rows)) = map todo_id rows"
  by (cases "get_or_404 rows tid False") (simp_all add: update_todo_status_def commit_ids)

lemma ids_restore:
  "map todo_id (snd (restore_todo db_now tid rows)) = map todo_id rows"
  by (cases "get_or_404 rows tid True") (simp_all add: restore_todo_def commit_ids)

lemma ids_delete:
  "map todo_id (snd (delete_todo db_now tid rows)) = map todo_id rows"
  by (cases "get_or_404 rows tid False")
    (simp_all add: delete_todo_def case_prod_beta commit_ids)

lemma ids_create:
  "map todo_id (snd (create_todo db_now todo rows)) = map todo_id rows @ [next_id rows]"
  by (simp add: create_todo_def Let_def)

lemma pk_unique_route:
  assumes "pk_unique rows"
  shows "pk_unique (snd (route req now db_now rows))"
proof (cases req)
  case Health
  with assms show ?thesis by (simp add: route_def)
next
  case (ListTodos lq)
  with assms show ?thesis by (simp add: route_def split: sum.splits)
next
  case (ExportTodos fmt incl)
  with assms show ?thesis by (simp add: route_def split: option.splits)
next
  case (TodosStats incl)
  with assms show ?thesis by (simp add: route_def)
next
  case (GetTodo i)
  with assms show ?thesis by (simp add: route_def snd_answer split: sum.splits)
next
  case (CreateTodo b)
  with assms next_id_fresh [of rows] show ?thesis
    by (simp add: route_def snd_answer pk_unique_def ids_create split: sum.splits)
next
  case (ReplaceTodo i b)
  with assms show ?thesis
    by (simp add: route_def snd_answer pk_unique_def ids_replace split: sum.splits)
next
  case (UpdateTodo i b)
  with assms show ?thesis
    by (simp add: route_def snd_answer pk_unique_def ids_update split: sum.splits)
next
  case (UpdateTodoStatus i b)
  with assms show ?thesis
    by (simp add: route_def snd_answer pk_unique_def ids_update_status split: sum.splits)
next
  case (RestoreTodo i)
  with assms show ?thesis
    by (simp add: route_def snd_answer pk_unique_def ids_restore split: sum.splits)
next
  case (DeleteTodo i)
  with assms show ?thesis
    by (simp add: route_def snd_answer pk_unique_def ids_delete split: sum.splits)
qed

lemma pk_unique_seed:
  assumes "pk_unique rows"
  shows "pk_unique (seed_data now db_now rows)"
proof (cases "filter (\<lambda>t. is_deleted t = False) rows")
  case Nil
  have "\<forall>a \<in> set rows. todo_id a < next_id rows"
    by (simp add: next_id_above)
  then have "\<forall>a \<in> set rows. todo_id a \<notin> {next_id rows, next_id rows + 1, next_id rows + 2,
      next_id rows + 3, next_id rows + 4}"
    by auto
  with assms Nil show ?thesis
    by (auto simp: seed_data_def seed_rows_def pk_unique_def)
next
  case (Cons e rest)
  with assms show ?thesis by (simp add: seed_data_def)
qed

lemma reachable_pk_unique: "reachable rows \<Longrightarrow> pk_unique rows"
proof (induction rule: reachable.induct)
  case reachable_empty
  show ?case by (simp add: pk_unique_def)
next
  case (reachable_seed rows now db_now)
  then show ?case by (simp add: pk_unique_seed)
next
  case (reachable_step rows API_KEY header req now db_now)
  then show ?case by (simp add: handle_def pk_unique_route split: sum.splits)
qed

section \<open>Soft delete and restore\<close>

lemma insort_by_map:
  assumes "\<And>a b. le (g a) (g b) = le a b"
  shows "insort_by le (g x) (map g xs) = map g (insort_by le x xs)"
  by (induction xs) (simp_all add: assms)

lemma sort_by_rel_map:
  assumes "\<And>a b. le (g a) (g b) = le a b"
  shows "sort_by_rel le (map g xs) = map g (sort_by_rel le xs)"
proof (induction xs)
  case Nil
  show ?case by (simp add: sort_by_rel_def)
next
  case (Cons x xs)
  have "sort_by_rel le (map g (x # xs)) = insort_by le (g x) (sort_by_rel le (map g xs))"
    by (simp add: sort_by_rel_def)
  also have "\<dots> = map g (insort_by le x (sort_by_rel le xs))"
    using assms by (simp add: Cons insort_by_map)
  finally show ?case by (simp add: sort_by_rel_def)
qed

lemma default_listing:
  "handle API_KEY header (ListTodos default_list_query) now db_now rows
     = (Inr (TodoList (list_todos rows now default_params)), rows)"
  by (simp add: handle_def route_def validate_list_query_def default_list_query_def
      default_params_def SortBy_of_string_def OrderBy_of_string_def)

lemma list_todos_default:
  "list_todos rows now default_params
     = take 10 (order_by By_todo_id Asc (filter (\<lambda>t. \<not> is_deleted t) rows))"
  by (simp add: list_todos_def list_filters_def default_params_def)

lemma pk_unique_same_id:
  "pk_unique rows \<Longrightarrow> a \<in> set rows \<Longrightarrow> t \<in> set rows \<Longrightarrow> todo_id a = todo_id t \<Longrightarrow> a = t"
  unfolding pk_unique_def by (meson distinct_map inj_onD)

lemma list_todos_default_replaced:
  assumes "pk_unique rows" and "t \<in> set rows" and "todo_id t = X"
    and "todo_id r = X" and "is_deleted r = is_deleted t"
  shows "list_todos (map (\<lambda>a. if todo_id a = X then r else a) rows) now default_params
           = map (\<lambda>a. if todo_id a = X then r else a) (list_todos rows now default_params)"
proof -
  let ?g = "\<lambda>a. if todo_id a = X then r else a"
  have del: "is_deleted (?g a) = is_deleted a" if "a \<in> set rows" for a
    using pk_unique_same_id [OF assms(1) that assms(2)] assms(3,5) by auto
  have "filter (\<lambda>t. \<not> is_deleted t) (map ?g rows)
          = map ?g (filter ((\<lambda>t. \<not> is_deleted t) \<circ> ?g) rows)"
    by (simp add: filter_map)
  also have "filter ((\<lambda>t. \<not> is_deleted t) \<circ> ?g) rows = filter (\<lambda>t. \<not> is_deleted t) rows"
    by (rule filter_cong) (simp_all add: del)
  finally have f: "filter (\<lambda>t. \<not> is_deleted t) (map ?g rows)
          = map ?g (filter (\<lambda>t. \<not> is_deleted t) rows)" .
  have id: "todo_id (?g a) = todo_id a" for a
    using assms(4) by simp
  have le: "row_le By_todo_id Asc (?g a) (?g b) = row_le By_todo_id Asc a b" for a b
    unfolding row_le_def getattr.simps id by simp
  have "order_by By_todo_id Asc (map ?g xs) = map ?g (order_by By_todo_id Asc xs)" for xs
    unfolding order_by_def by (rule sort_by_rel_map) (rule le)
  then show ?thesis
    unfolding list_todos_default f by (simp add: take_map)
qed

lemma flag_flip_differs: "is_deleted t \<noteq> b \<Longrightarrow> t\<lparr>is_deleted := b\<rparr> \<noteq> t"
proof
  assume "is_deleted t \<noteq> b" and "t\<lparr>is_deleted := b\<rparr> = t"
  from this(2) have "is_deleted (t\<lparr>is_deleted := b\<rparr>) = is_deleted t"
    by (rule arg_cong)
  with \<open>is_deleted t \<noteq> b\<close> show False by simp
qed

lemma delete_todo_live:
  assumes "get_or_404 rows X False = Inr t"
  shows "delete_todo db_now X rows
           = (Inr (), map (\<lambda>a. if todo_id a = X
                               then t\<lparr>is_deleted := True, updated_at := db_now\<rparr> else a) rows)"
proof -
  from get_or_404_Inr [OF assms] have t: "todo_id t = X" "is_deleted t \<noteq> True"
    by simp_all
  show ?thesis
    unfolding delete_todo_def assms sum.case commit_changed [OF flag_flip_differs [OF t(2)]]
    by (simp add: t(1))
qed

lemma restore_todo_deleted:
  assumes "get_or_404 rows X True = Inr d" and "is_deleted d"
  shows "restore_todo db_now X rows
           = (Inr (d\<lparr>is_deleted := False, updated_at := db_now\<rparr>),
              map (\<lambda>a. if todo_id a = X
                        then d\<lparr>is_deleted := False, updated_at := db_now\<rparr> else a) rows)"
proof -
  from get_or_404_Inr [OF assms(1)] have t: "todo_id d = X"
    by simp
  from assms(2) have "is_deleted d \<noteq> False" by simp
  from flag_flip_differs [OF this] show ?thesis
    unfolding restore_todo_def assms(1) sum.case
    by (simp add: commit_changed t)
qed

lemma replace_twice:
  assumes "todo_id d = X"
  shows "map (\<lambda>a. if todo_id a = X then r else a) (map (\<lambda>a. if todo_id a = X then d else a) rows)
           = map (\<lambda>a. if todo_id a = X then r else a) rows"
  using assms by (induction rows) simp_all

text \<open>
  With the configured key and an id of at least 1, the two routes run their functions.
\<close>

lemma handle_DeleteTodo:
  assumes "(case header of None \<Rightarrow> [] | Some v \<Rightarrow> v) = API_KEY" and "1 \<le> X"
  shows "handle API_KEY header (DeleteTodo X) now db_now rows
           = answer (\<lambda>u. NoContent) (delete_todo db_now X rows)"
  using assms by (simp add: right_key_accepted route_def path_todo_id_def)

lemma handle_RestoreTodo:
  assumes "(case header of None \<Rightarrow> [] | Some v \<Rightarrow> v) = API_KEY" and "1 \<le> X"
  shows "handle API_KEY header (RestoreTodo X) now db_now rows
           = answer TodoOut (restore_todo db_now X rows)"
  using assms by (simp add: right_key_accepted route_def path_todo_id_def)

text \<open>
  Claim C5 says that the restored record appears again in the listing with default
  parameters, for every table that holds the record. That listing is the first ten rows
  by id that are not soft-deleted: in a table of eleven such rows the row with id 11 is
  restored as it was and is found by \<^verbatim>\<open>get_todo\<close>, and the default listing holds the ids
  1 to 10, as it did before the delete.
\<close>

theorem restored_row_outside_default_window:
  "pk_unique eleven_rows
   \<and> map_sum id todo_id (get_todo eleven_rows 11) = Inr 11
   \<and> fst (delete_todo 8 11 eleven_rows) = Inr ()
   \<and> map_sum id todo_id (fst (restore_todo 9 11 (snd (delete_todo 8 11 eleven_rows)))) = Inr 11
   \<and> map_sum id is_deleted (get_todo (snd (restore_todo 9 11 (snd (delete_todo 8 11 eleven_rows)))) 11)
       = Inr False
   \<and> fst (handle ''name_here'' None (ListTodos default_list_query) 9 9
            (snd (restore_todo 9 11 (snd (delete_todo 8 11 eleven_rows)))))
       = Inr (TodoList (list_todos (snd (restore_todo 9 11 (snd (delete_todo 8 11 eleven_rows))))
                          9 default_params))
   \<and> map todo_id (list_todos (snd (restore_todo 9 11 (snd (delete_todo 8 11 eleven_rows))))
                     9 default_params) = [1, 2, 3, 4, 5, 6, 7, 8, 9, 10]"
  by code_simp

text \<open>
  Claim C5, amended. Let the table, its primary keys unique, hold a row with id \<open>X\<close>
  that is not soft-deleted. Deleting \<open>X\<close> succeeds and hides the row from
  \<^verbatim>\<open>get_todo\<close>; restoring \<open>X\<close> then returns the row as it was before the delete but for
  \<^verbatim>\<open>updated_at\<close>, and that is the row \<^verbatim>\<open>get_todo\<close> finds again. The listing with
  default parameters is, after the two operations, the listing before them with that row
  in the place of the old one: the row appears in it exactly when it appeared before the
  delete.
\<close>

theorem delete_then_restore:
  assumes "pk_unique rows" and "get_todo rows X = Inr t"
  shows "fst (delete_todo db_now1 X rows) = Inr ()
       \<and> get_todo (snd (delete_todo db_now1 X rows)) X
           = Inl (HTTPException 404 ''Todo not found'')
       \<and> fst (restore_todo db_now2 X (snd (delete_todo db_now1 X rows)))
           = Inr (t\<lparr>updated_at := db_now2\<rparr>)
       \<and> get_todo (snd (restore_todo db_now2 X (snd (delete_todo db_now1 X rows)))) X
           = Inr (t\<lparr>updated_at := db_now2\<rparr>)
       \<and> fst (handle API_KEY header (ListTodos default_list_query) now db_now
                (snd (restore_todo db_now2 X (snd (delete_todo db_now1 X rows)))))
           = Inr (TodoList (map (\<lambda>a. if todo_id a = X then t\<lparr>updated_at := db_now2\<rparr> else a)
                              (list_todos rows now default_params)))
       \<and> fst (handle API_KEY header (ListTodos default_list_query) now db_now rows)
           = Inr (TodoList (list_todos rows now default_params))
       \<and> (t\<lparr>updated_at := db_now2\<rparr>
              \<in> set (list_todos
                       (snd (restore_todo db_now2 X (snd (delete_todo db_now1 X rows))))
                       now default_params))
           = (t \<in> set (list_todos rows now default_params))"
proof -
  from assms(2) have g: "get_or_404 rows X False = Inr t"
    by (simp add: get_todo_def)
  from get_or_404_Inr [OF g] have t: "t \<in> set rows" "todo_id t = X" "\<not> is_deleted t"
    by simp_all
  define d where "d = t\<lparr>is_deleted := True, updated_at := db_now1\<rparr>"
  define r where "r = t\<lparr>updated_at := db_now2\<rparr>"
  define rows1 where "rows1 = map (\<lambda>a. if todo_id a = X then d else a) rows"
  define rows2 where "rows2 = map (\<lambda>a. if todo_id a = X then r else a) rows"
  have d: "todo_id d = X" "is_deleted d"
    by (simp_all add: d_def t(2))
  have r: "todo_id r = X" "is_deleted r = is_deleted t" "\<not> is_deleted r"
    by (simp_all add: r_def t(2,3))
  have dr: "d\<lparr>is_deleted := False, updated_at := db_now2\<rparr> = r"
    using t(3) by (simp add: d_def r_def)
  have del: "delete_todo db_now1 X rows = (Inr (), rows1)"
    unfolding rows1_def d_def by (rule delete_todo_live [OF g])
  have g1: "get_or_404 rows1 X True = Inr d"
    unfolding rows1_def by (rule get_or_404_replaced [OF t(1,2) d(1)]) simp
  have "filter (\<lambda>a. todo_id a = X \<and> (False \<or> \<not> is_deleted a)) rows1 = []"
    unfolding rows1_def using d(2) by (auto simp: filter_empty_conv)
  then have gone: "get_or_404 rows1 X False = Inl (HTTPException 404 ''Todo not found'')"
    by (simp add: get_or_404_filter)
  have "map (\<lambda>a. if todo_id a = X then r else a) rows1 = rows2"
    unfolding rows1_def rows2_def by (rule replace_twice [OF d(1)])
  with restore_todo_deleted [OF g1 d(2), of db_now2]
  have res: "restore_todo db_now2 X rows1 = (Inr r, rows2)"
    unfolding dr by simp
  have g2: "get_or_404 rows2 X False = Inr r"
    unfolding rows2_def by (rule get_or_404_replaced [OF t(1,2) r(1)]) (simp add: r(3))
  have l: "list_todos rows2 now default_params
             = map (\<lambda>a. if todo_id a = X then r else a) (list_todos rows now default_params)"
    unfolding rows2_def by (rule list_todos_default_replaced [OF assms(1) t(1,2) r(1,2)])
  have "fst (delete_todo db_now1 X rows) = Inr ()"
    "get_todo (snd (delete_todo db_now1 X rows)) X = Inl (HTTPException 404 ''Todo not found'')"
    "fst (restore_todo db_now2 X (snd (delete_todo db_now1 X rows))) = Inr r"
    "get_todo (snd (restore_todo db_now2 X (snd (delete_todo db_now1 X rows)))) X = Inr r"
    "fst (handle API_KEY header (ListTodos default_list_query) now db_now
            (snd (restore_todo db_now2 X (snd (delete_todo db_now1 X rows)))))
       = Inr (TodoList (map (\<lambda>a. if todo_id a = X then r else a)
                          (list_todos rows now default_params)))"
    "fst (handle API_KEY header (ListTodos default_list_query) now db_now rows)
       = Inr (TodoList (list_todos rows now default_params))"
    unfolding del res fst_conv snd_conv get_todo_def default_listing gone g2 l
    by (rule refl)+
  moreover have "(r \<in> set (list_todos
                           (snd (restore_todo db_now2 X (snd (delete_todo db_now1 X rows))))
                           now default_params))
           = (t \<in> set (list_todos rows now default_params))"
  proof
    assume "t \<in> set (list_todos rows now default_params)"
    then show "r \<in> set (list_todos
                           (snd (restore_todo db_now2 X (snd (delete_todo db_now1 X rows))))
                           now default_params)"
      unfolding del res snd_conv l using t(2) by (auto simp: image_iff intro!: bexI [of _ t])
  next
    assume "r \<in> set (list_todos
                           (snd (restore_todo db_now2 X (snd (delete_todo db_now1 X rows))))
                           now default_params)"
    then obtain a where a: "a \<in> set (list_todos rows now default_params)"
      and ar: "(if todo_id a = X then r else a) = r"
      unfolding del res snd_conv l by auto
    from a have a_in: "a \<in> set rows"
      using list_todos_passes [of a rows now default_params] by simp
    from ar r(1) have "todo_id a = X"
      by (cases "todo_id a = X") simp_all
    with pk_unique_same_id [OF assms(1) a_in t(1)] t(2) have "a = t"
      by simp
    with a show "t \<in> set (list_todos rows now default_params)"
      by simp
  qed
  ultimately show ?thesis
    unfolding r_def by (intro conjI)
qed

theorem delete_then_restore_witness:
  "pk_unique seeded_table
   \<and> get_todo seeded_table 2
       = Inr \<lparr>todo_id = 2, todo_name = ''Clean house'',
              todo_description = ''Cleaning the house thoroughly'', priority = 1,
              status = ''NEW'', due_date = None, is_deleted = False, created_at = 7,
              updated_at = 7\<rparr>
   \<and> fst (restore_todo 12 2 (snd (delete_todo 11 2 seeded_table)))
       = Inr \<lparr>todo_id = 2, todo_name = ''Clean house'',
              todo_description = ''Cleaning the house thoroughly'', priority = 1,
              status = ''NEW'', due_date = None, is_deleted = False, created_at = 7,
              updated_at = 12\<rparr>
   \<and> map todo_id (list_todos (snd (restore_todo 12 2 (snd (delete_todo 11 2 seeded_table))))
                     20 default_params) = [1, 2, 3, 4, 5]"
proof -
  let ?t = "\<lparr>todo_id = 2, todo_name = ''Clean house'',
              todo_description = ''Cleaning the house thoroughly'', priority = 1,
              status = ''NEW'', due_date = None, is_deleted = False, created_at = 7,
              updated_at = 7\<rparr>"
  have pk: "pk_unique seeded_table"
    by code_simp
  have g: "get_todo seeded_table 2 = Inr ?t"
    by code_simp
  have l: "map todo_id (list_todos (snd (restore_todo 12 2 (snd (delete_todo 11 2 seeded_table))))
                     20 default_params) = [1, 2, 3, 4, 5]"
    by code_simp
  from delete_then_restore [OF pk g, of 11 12]
  have "fst (restore_todo 12 2 (snd (delete_todo 11 2 seeded_table)))
          = Inr (?t\<lparr>updated_at := 12\<rparr>)"
    by blast
  with pk g l show ?thesis by simp
qed

section \<open>The text filter\<close>

text \<open>
  For a \<open>q\<close> without \<^verbatim>\<open>%\<close> and \<^verbatim>\<open>_\<close> the pattern \<^verbatim>\<open>%q%\<close> matches a column exactly
  when \<open>q\<close> is a substring of it, letter case apart; the filters of \<^verbatim>\<open>list_todos\<close> are
  then the conjunction the specification words.
\<close>

lemma lower_char_eq_37: "(lower_char c = CHR ''%'') = (c = CHR ''%'')"
proof -
  have n: "(of_char (CHR ''%'') :: nat) = 37" by simp
  show ?thesis
  proof (cases "65 \<le> (of_char c :: nat) \<and> (of_char c :: nat) \<le> 90")
    case True
    then have "(of_char (lower_char c) :: nat) = of_char c + 32"
      by (simp add: lower_char_def Let_def)
    with True have "(of_char (lower_char c) :: nat) \<noteq> of_char (CHR ''%'')"
      "(of_char c :: nat) \<noteq> of_char (CHR ''%'')"
      unfolding n by linarith+
    then show ?thesis by (metis)
  next
    case False
    then show ?thesis by (auto simp: lower_char_def Let_def)
  qed
qed

lemma lower_char_eq_95: "(lower_char c = CHR ''_'') = (c = CHR ''_'')"
proof -
  have n: "(of_char (CHR ''_'') :: nat) = 95" by simp
  show ?thesis
  proof (cases "65 \<le> (of_char c :: nat) \<and> (of_char c :: nat) \<le> 90")
    case True
    then have "(of_char (lower_char c) :: nat) = of_char c + 32"
      by (simp add: lower_char_def Let_def)
    with True have "(of_char (lower_char c) :: nat) \<noteq> of_char (CHR ''_'')"
      "(of_char c :: nat) \<noteq> of_char (CHR ''_'')"
      unfolding n by linarith+
    then show ?thesis by (metis)
  next
    case False
    then show ?thesis by (auto simp: lower_char_def Let_def)
  qed
qed

lemma wildcard_free_lower: "wildcard_free (lower q) = wildcard_free q"
proof -
  have a: "(CHR ''%'' = lower_char c) = (CHR ''%'' = c)" for c
    using lower_char_eq_37 [of c] by auto
  have b: "(CHR ''_'' = lower_char c) = (CHR ''_'' = c)" for c
    using lower_char_eq_95 [of c] by auto
  have "(CHR ''%'' \<in> set (lower q)) = (CHR ''%'' \<in> set q)"
    by (induction q) (simp_all add: lower_def a)
  moreover have "(CHR ''_'' \<in> set (lower q)) = (CHR ''_'' \<in> set q)"
    by (induction q) (simp_all add: lower_def b)
  ultimately show ?thesis
    by (simp add: wildcard_free_def)
qed

lemma like_percent: "like ''%'' s"
  by (induction s) simp_all

lemma like_leading_percent: "like (CHR ''%'' # ps) s = (\<exists>t. suffix t s \<and> like ps t)"
proof (induction s)
  case Nil
  show ?case by simp
next
  case (Cons c s)
  have "like (CHR ''%'' # ps) (c # s) = (like ps (c # s) \<or> like (CHR ''%'' # ps) s)"
    by simp
  also have "\<dots> = (like ps (c # s) \<or> (\<exists>t. suffix t s \<and> like ps t))"
    by (simp add: Cons)
  also have "\<dots> = (\<exists>t. suffix t (c # s) \<and> like ps t)"
    by (auto simp: suffix_Cons)
  finally show ?case .
qed

lemma like_trailing_percent:
  "wildcard_free ps \<Longrightarrow> like (ps @ ''%'') s = prefix ps s"
proof (induction ps arbitrary: s)
  case Nil
  show ?case by (simp add: like_percent)
next
  case (Cons p ps)
  then have p: "p \<noteq> CHR ''%''" "p \<noteq> CHR ''_''" and ps: "wildcard_free ps"
    by (auto simp: wildcard_free_def)
  show ?case
  proof (cases s)
    case Nil
    with p show ?thesis by simp
  next
    case (Cons c t)
    with p Cons.IH [OF ps, of t] show ?thesis by auto
  qed
qed

lemma like_contains:
  assumes "wildcard_free q"
  shows "like (''%'' @ q @ ''%'') s = sublist q s"
proof -
  have "like (''%'' @ q @ ''%'') s = (\<exists>t. suffix t s \<and> like (q @ ''%'') t)"
    using like_leading_percent [of "q @ ''%''" s] by simp
  also have "\<dots> = (\<exists>t. suffix t s \<and> prefix q t)"
    by (simp add: like_trailing_percent [OF assms])
  also have "\<dots> = sublist q s"
    by (simp add: sublist_altdef')
  finally show ?thesis .
qed

lemma ilike_contains:
  assumes "wildcard_free q"
  shows "ilike col (''%'' @ q @ ''%'') = sublist (lower q) (lower col)"
proof -
  have "lower (''%'' @ q @ ''%'') = ''%'' @ lower q @ ''%''"
    by (simp add: lower_def lower_char_eq_37)
  then show ?thesis
    using like_contains [of "lower q" "lower col"] assms
    by (simp add: ilike_def wildcard_free_lower)
qed

lemma q_matches_spec:
  assumes "wildcard_free q"
  shows "q_matches q t = spec_q_filter q t"
  unfolding q_matches_def spec_q_filter_def ilike_contains [OF assms]
  by (rule refl)

lemma passes_spec:
  assumes "case lp_q p of None \<Rightarrow> True | Some q \<Rightarrow> wildcard_free q"
  shows "passes now p t = spec_passes now p t"
proof (cases "lp_q p")
  case None
  then show ?thesis by (simp add: passes_def spec_passes_def)
next
  case (Some q)
  with assms have w: "wildcard_free q" by simp
  have "(q = [] \<or> q_matches q t) = spec_q_filter q t"
  proof (cases "q = []")
    case True
    then show ?thesis by (simp add: spec_q_filter_def lower_def)
  next
    case False
    with w show ?thesis by (simp add: q_matches_spec)
  qed
  with Some show ?thesis by (simp add: passes_def spec_passes_def)
qed

lemma list_todos_spec_filters:
  assumes "case lp_q p of None \<Rightarrow> True | Some q \<Rightarrow> wildcard_free q"
  shows "list_todos rows now p
           = take (nat (lp_limit p)) (drop (nat (lp_offset p))
               (order_by (lp_sort_by p) (lp_order p) (filter (spec_passes now p) rows)))"
proof -
  have "passes now p = spec_passes now p"
    using passes_spec [OF assms] by (simp add: fun_eq_iff)
  then show ?thesis
    by (simp add: list_todos_def list_filters_eq)
qed

text \<open>
  Claim C3 says the text filter holds exactly when \<open>q\<close> is a substring of the name or of
  the description. \<open>q\<close> goes into the \<^verbatim>\<open>LIKE\<close> pattern as it is, so \<^verbatim>\<open>_\<close> and \<^verbatim>\<open>%\<close>
  in it are wildcards: \<^verbatim>\<open>GET /todos?q=_\<close> on the seeded table returns all five rows, and
  none of them has an underscore in its name or its description.
\<close>

theorem like_wildcard_in_q:
  "validate_list_query (default_list_query\<lparr>lq_q := Some ''_''\<rparr>)
     = Inr (default_params\<lparr>lp_q := Some ''_''\<rparr>)
   \<and> map todo_id (list_todos seeded_table 9 (default_params\<lparr>lp_q := Some ''_''\<rparr>))
     = [1, 2, 3, 4, 5]
   \<and> filter (spec_passes 9 (default_params\<lparr>lp_q := Some ''_''\<rparr>)) seeded_table = []"
  by code_simp

end
